theory Spec2Isabelle
  imports Main "HOL-Library.Sublist"
begin

section \<open>JavaScript strings\<close>

text \<open>
  The parser (\<^verbatim>\<open>ExParser.parse\<close> and \<^verbatim>\<open>ExParser.confidence\<close>, the variant
  that fills the \<^verbatim>\<open>markings\<close> field) works on JavaScript strings: sequences of
  UTF-16 code units. \<^verbatim>\<open>length\<close>, \<^verbatim>\<open>includes\<close>, \<^verbatim>\<open>substring\<close> and the
  regular expressions (none has the \<^verbatim>\<open>u\<close> flag) all count code units, so a string
  is modelled as the list of its code units, each a natural number.
  \<open>str\<close> reads an ASCII literal; the three non-ASCII characters of the source are
  written by their code: U+00DC (220) in the body name \<^verbatim>\<open>TUV\<close> with umlaut,
  the degree sign U+00B0 (176), and the dashes U+2013 (8211) and U+2014 (8212).
\<close>

type_synonym cu = nat
type_synonym jstring = "cu list"

definition str :: "string \<Rightarrow> jstring" where
  "str s = map of_char s"

text \<open>The character classes \<^verbatim>\<open>\s\<close>, \<^verbatim>\<open>\d\<close>, \<^verbatim>\<open>\w\<close>, \<^verbatim>\<open>.\<close>, \<^verbatim>\<open>[A-Z]\<close>,
  \<^verbatim>\<open>[a-z]\<close>, a range and an explicit set. \<^verbatim>\<open>\s\<close> is ECMAScript's WhiteSpace and
  LineTerminator; \<^verbatim>\<open>.\<close> is everything but a LineTerminator.\<close>

definition is_space :: "cu \<Rightarrow> bool" where
  "is_space c = (c = 32 \<or> (9 \<le> c \<and> c \<le> 13) \<or> c = 160 \<or> c = 5760 \<or> (8192 \<le> c \<and> c \<le> 8202)
     \<or> c = 8232 \<or> c = 8233 \<or> c = 8239 \<or> c = 8287 \<or> c = 12288 \<or> c = 65279)"

definition is_digit :: "cu \<Rightarrow> bool" where
  "is_digit c = (48 \<le> c \<and> c \<le> 57)"

definition is_upper :: "cu \<Rightarrow> bool" where
  "is_upper c = (65 \<le> c \<and> c \<le> 90)"

definition is_lower :: "cu \<Rightarrow> bool" where
  "is_lower c = (97 \<le> c \<and> c \<le> 122)"

definition is_word :: "cu \<Rightarrow> bool" where
  "is_word c = ((48 \<le> c \<and> c \<le> 57) \<or> (65 \<le> c \<and> c \<le> 90) \<or> (97 \<le> c \<and> c \<le> 122) \<or> c = 95)"

definition is_dot :: "cu \<Rightarrow> bool" where
  "is_dot c = (c \<noteq> 10 \<and> c \<noteq> 13 \<and> c \<noteq> 8232 \<and> c \<noteq> 8233)"

definition in_range :: "cu \<Rightarrow> cu \<Rightarrow> cu \<Rightarrow> bool" where
  "in_range a b c = (a \<le> c \<and> c \<le> b)"

definition one_of :: "string \<Rightarrow> cu \<Rightarrow> bool" where
  "one_of s c = (c \<in> set (str s))"

text \<open>
  Case folding. Without the \<^verbatim>\<open>u\<close> flag the \<^verbatim>\<open>i\<close> flag compares the
  canonical forms of two code units: the unit's \<^verbatim>\<open>toUpperCase\<close>, unless that is
  more than one unit or maps a non-ASCII unit into ASCII. Every letter the patterns of the
  parser mention is ASCII and their three non-ASCII characters have no case, so a unit
  matches a class under \<^verbatim>\<open>i\<close> exactly when it, its ASCII upper case or its ASCII
  lower case is in the class.
\<close>

definition ascii_upper :: "cu \<Rightarrow> cu" where
  "ascii_upper c = (if 97 \<le> c \<and> c \<le> 122 then c - 32 else c)"

definition ascii_lower :: "cu \<Rightarrow> cu" where
  "ascii_lower c = (if 65 \<le> c \<and> c \<le> 90 then c + 32 else c)"

definition ci :: "(cu \<Rightarrow> bool) \<Rightarrow> cu \<Rightarrow> bool" where
  "ci P c = (P c \<or> P (ascii_upper c) \<or> P (ascii_lower c))"

text \<open>\<^verbatim>\<open>toLowerCase\<close>: the parser lower-cases only tokens cut from a marking, whose
  characters are ASCII or the degree sign, where it is the ASCII lower case.\<close>

definition toLowerCase :: "jstring \<Rightarrow> jstring" where
  "toLowerCase s = map ascii_lower s"

text \<open>\<^verbatim>\<open>trim()\<close> removes \<^verbatim>\<open>\s\<close> units at both ends.\<close>

definition trim :: "jstring \<Rightarrow> jstring" where
  "trim s = rev (dropWhile is_space (rev (dropWhile is_space s)))"

text \<open>\<^verbatim>\<open>s.replace(/\s+/g, ' ')\<close>: every maximal run of whitespace becomes one space.\<close>

function collapse_ws :: "jstring \<Rightarrow> jstring" where
  "collapse_ws [] = []"
| "collapse_ws (c # cs) =
     (if is_space c then 32 # collapse_ws (dropWhile is_space cs) else c # collapse_ws cs)"
  by pat_completeness auto
termination
  by (relation "measure length") (auto simp: le_imp_less_Suc length_dropWhile_le)

text \<open>\<^verbatim>\<open>s.replace(/\s+/g, '')\<close>: all whitespace is removed.\<close>

definition remove_ws :: "jstring \<Rightarrow> jstring" where
  "remove_ws s = filter (\<lambda>c. \<not> is_space c) s"

text \<open>\<^verbatim>\<open>s.split(/\s+/)\<close>: the pieces between maximal runs of whitespace; a run at
  the start or the end leaves an empty piece there, and the empty string gives one empty
  piece. \<open>cur\<close> is the piece being read, reversed.\<close>

function split_ws_from :: "jstring \<Rightarrow> jstring \<Rightarrow> jstring list" where
  "split_ws_from cur [] = [rev cur]"
| "split_ws_from cur (c # cs) =
     (if is_space c then rev cur # split_ws_from [] (dropWhile is_space cs)
      else split_ws_from (c # cur) cs)"
  by pat_completeness auto
termination
  by (relation "measure (\<lambda>(cur, s). length s)") (auto simp: le_imp_less_Suc length_dropWhile_le)

definition split_ws :: "jstring \<Rightarrow> jstring list" where
  "split_ws s = split_ws_from [] s"

text \<open>\<^verbatim>\<open>t.includes(b)\<close>: \<open>b\<close> occurs in \<open>t\<close> as a contiguous run of units.\<close>

definition js_includes :: "jstring \<Rightarrow> jstring \<Rightarrow> bool" where
  "js_includes t b = sublist b t"

text \<open>\<^verbatim>\<open>xs.join(', ')\<close>.\<close>

fun join_comma :: "jstring list \<Rightarrow> jstring" where
  "join_comma [] = []"
| "join_comma [x] = x"
| "join_comma (x # y # ys) = x @ str '', '' @ join_comma (y # ys)"

text \<open>\<^verbatim>\<open>[...new Set(xs)]\<close>: the distinct elements in the order of their first
  occurrence.\<close>

fun dedupe_from :: "jstring list \<Rightarrow> jstring list \<Rightarrow> jstring list" where
  "dedupe_from seen [] = seen"
| "dedupe_from seen (x # xs) = (if x \<in> set seen then dedupe_from seen xs else dedupe_from (seen @ [x]) xs)"

definition dedupe :: "jstring list \<Rightarrow> jstring list" where
  "dedupe xs = dedupe_from [] xs"

text \<open>\<^verbatim>\<open>xs.sort((a, b) => b.length - a.length)\<close>: a stable sort, longest first.\<close>

definition sort_longest_first :: "jstring list \<Rightarrow> jstring list" where
  "sort_longest_first xs = sort_key (\<lambda>s. - int (length s)) xs"

section \<open>Regular expressions\<close>

text \<open>
  The patterns of the parser use classes, sequence, alternation, greedy and lazy
  repetition, capture groups, lookahead, \<^verbatim>\<open>\b\<close>, \<^verbatim>\<open>^\<close> and \<^verbatim>\<open>$\<close>
  (no pattern has the \<^verbatim>\<open>m\<close> flag, so the last two are the ends of the string).
  The matcher is ECMAScript's backtracking matcher, written as the list of all ways a
  pattern can match at a position, in the order backtracking tries them: the first
  element is the match \<^verbatim>\<open>exec\<close> reports. No pattern has a back-reference, a group
  inside a repetition or a group inside a lookahead, so a capture is set at most once on a
  path.
\<close>

datatype rx =
    Chr "cu \<Rightarrow> bool"
  | Epsilon
  | Seq rx rx
  | Alt rx rx
  | Star bool rx
  | Upto bool nat rx
  | Grp nat rx
  | Look bool rx
  | Wordb
  | Bos
  | Eos

text \<open>A matcher state: the unit before the position (none at the start of the string),
  the rest of the string from the position, and the captures so far.\<close>

datatype mst = St (prev: "cu option") (rest: jstring) (caps: "nat \<Rightarrow> jstring option")

fun rx_size :: "rx \<Rightarrow> nat" where
  "rx_size (Seq a b) = Suc (rx_size a + rx_size b)"
| "rx_size (Alt a b) = Suc (rx_size a + rx_size b)"
| "rx_size (Star g a) = Suc (rx_size a)"
| "rx_size (Upto g k a) = Suc (rx_size a + k)"
| "rx_size (Grp n a) = Suc (rx_size a)"
| "rx_size (Look p a) = Suc (rx_size a)"
| "rx_size _ = 0"

text \<open>A greedy repetition tries one more round before stopping, a lazy one stops first.\<close>

definition prio :: "bool \<Rightarrow> mst list \<Rightarrow> mst \<Rightarrow> mst list" where
  "prio greedy more s = (if greedy then more @ [s] else s # more)"

definition word_before :: "mst \<Rightarrow> bool" where
  "word_before s = (case prev s of None \<Rightarrow> False | Some c \<Rightarrow> is_word c)"

definition word_after :: "mst \<Rightarrow> bool" where
  "word_after s = (case rest s of [] \<Rightarrow> False | c # cs \<Rightarrow> is_word c)"

text \<open>
  \<open>Star g a\<close> is \<^verbatim>\<open>a*\<close> (\<^verbatim>\<open>a*?\<close> when \<open>g\<close> is false) and \<open>Upto g k a\<close> is
  \<^verbatim>\<open>a{0,k}\<close>. A round of a repetition that consumed nothing is rejected, as
  ECMAScript's RepeatMatcher does once the minimum is reached (the position of a result is
  never before the position it started from, so ``the rest is shorter'' says that the
  round consumed something).
\<close>

function run :: "rx \<Rightarrow> mst \<Rightarrow> mst list" where
  "run (Chr P) s = (case rest s of [] \<Rightarrow> [] | c # cs \<Rightarrow> if P c then [St (Some c) cs (caps s)] else [])"
| "run Epsilon s = [s]"
| "run (Seq a b) s = concat (map (run b) (run a s))"
| "run (Alt a b) s = run a s @ run b s"
| "run (Star g a) s =
     prio g (concat (map (\<lambda>s'. if length (rest s') < length (rest s) then run (Star g a) s' else []) (run a s))) s"
| "run (Upto g k a) s =
     (if k = 0 then [s]
      else prio g (concat (map (\<lambda>s'. if length (rest s') < length (rest s) then run (Upto g (k - 1) a) s' else [])
                                (run a s))) s)"
| "run (Grp n a) s =
     map (\<lambda>s'. St (prev s') (rest s') ((caps s')(n \<mapsto> take (length (rest s) - length (rest s')) (rest s))))
         (run a s)"
| "run (Look p a) s = (if (run a s \<noteq> []) = p then [s] else [])"
| "run Wordb s = (if word_before s \<noteq> word_after s then [s] else [])"
| "run Bos s = (if prev s = None then [s] else [])"
| "run Eos s = (if rest s = [] then [s] else [])"
  by pat_completeness auto
termination
  by (relation "measures [\<lambda>(r, s). rx_size r, \<lambda>(r, s). length (rest s)]") auto

declare run.simps [simp del]

text \<open>The first way the pattern matches at a position, if there is one.\<close>

definition exec_at :: "rx \<Rightarrow> cu option \<Rightarrow> jstring \<Rightarrow> mst option" where
  "exec_at r p t = (case run r (St p t (\<lambda>n. None)) of [] \<Rightarrow> None | s # ss \<Rightarrow> Some s)"

text \<open>\<^verbatim>\<open>exec\<close> without the \<^verbatim>\<open>g\<close> flag: the leftmost position where the pattern
  matches, tried from left to right up to and including the end of the string. The result is
  the text before the match, the match, and the matcher state at its end.\<close>

fun search :: "rx \<Rightarrow> cu option \<Rightarrow> jstring \<Rightarrow> (jstring \<times> jstring \<times> mst) option" where
  "search r p [] = (case exec_at r p [] of None \<Rightarrow> None | Some s \<Rightarrow> Some ([], [], s))"
| "search r p (c # cs) =
     (case exec_at r p (c # cs) of
        Some s \<Rightarrow> Some ([], take (length (c # cs) - length (rest s)) (c # cs), s)
      | None \<Rightarrow> (case search r (Some c) cs of None \<Rightarrow> None | Some (b, w, s) \<Rightarrow> Some (c # b, w, s)))"

text \<open>A match never moves backwards: the rest at its end is a suffix of the rest at its start.\<close>

lemma run_suffix: "s' \<in> set (run r s) \<Longrightarrow> \<exists>pre. rest s = pre @ rest s'"
proof (induction r s arbitrary: s' rule: run.induct)
  case (1 P s)
  then obtain c cs where "rest s = c # cs" "s' = St (Some c) cs (caps s)"
    by (cases "rest s") (auto simp: run.simps split: if_splits)
  then have "rest s = [c] @ rest s'" by simp
  then show ?case by blast
next
  case (3 a b s)
  then obtain s1 where s1: "s1 \<in> set (run a s)" and s': "s' \<in> set (run b s1)"
    by (auto simp: run.simps(3))
  from "3.IH"(1)[OF s1] obtain p1 where "rest s = p1 @ rest s1" by blast
  moreover from "3.IH"(2)[OF s1 s'] obtain p2 where "rest s1 = p2 @ rest s'" by blast
  ultimately have "rest s = (p1 @ p2) @ rest s'" by simp
  then show ?case by blast
next
  case (5 g a s)
  from "5.prems" consider "s' = s"
    | s1 where "s1 \<in> set (run a s)" "length (rest s1) < length (rest s)" "s' \<in> set (run (Star g a) s1)"
    by (subst (asm) run.simps) (auto simp: prio_def split: if_splits)
  then show ?case
  proof cases
    case 1
    then show ?thesis by simp
  next
    case 2
    from "5.IH"(1)[OF 2(1)] obtain p1 where "rest s = p1 @ rest s1" by blast
    moreover from "5.IH"(2)[OF 2(1) 2(2) 2(3)] obtain p2 where "rest s1 = p2 @ rest s'" by blast
    ultimately have "rest s = (p1 @ p2) @ rest s'" by simp
    then show ?thesis by blast
  qed
next
  case (6 g k a s)
  show ?case
  proof (cases "k = 0")
    case True
    with "6.prems" show ?thesis by (simp add: run.simps(6))
  next
    case False
    with "6.prems" consider "s' = s"
      | s1 where "s1 \<in> set (run a s)" "length (rest s1) < length (rest s)" "s' \<in> set (run (Upto g (k - 1) a) s1)"
      by (subst (asm) run.simps) (auto simp: prio_def split: if_splits)
    then show ?thesis
    proof cases
      case 1
      then show ?thesis by simp
    next
      case 2
      from "6.IH"(1)[OF False 2(1)] obtain p1 where "rest s = p1 @ rest s1" by blast
      moreover from "6.IH"(2)[OF False 2(1) 2(2) 2(3)] obtain p2 where "rest s1 = p2 @ rest s'" by blast
      ultimately have "rest s = (p1 @ p2) @ rest s'" by simp
      then show ?thesis by blast
    qed
  qed
qed (auto simp: run.simps split: if_splits)

lemma run_length: "s' \<in> set (run r s) \<Longrightarrow> length (rest s') \<le> length (rest s)"
  using run_suffix[of s' r s] by auto

lemma exec_at_suffix: "exec_at r p t = Some s \<Longrightarrow> \<exists>pre. t = pre @ rest s"
  using run_suffix[of s r "St p t (\<lambda>n. None)"] by (auto simp: exec_at_def split: list.splits)

lemma search_parts: "search r p t = Some (b, w, s) \<Longrightarrow> t = b @ w @ rest s"
proof (induction r p t arbitrary: b w s rule: search.induct)
  case (1 r p)
  then show ?case using exec_at_suffix[of r p "[]"] by (auto split: option.splits)
next
  case (2 r p c cs)
  show ?case
  proof (cases "exec_at r p (c # cs)")
    case None
    with "2.prems" obtain b' where "search r (Some c) cs = Some (b', w, s)" "b = c # b'"
      by (auto split: option.splits)
    with "2.IH"[OF None] show ?thesis by auto
  next
    case (Some s0)
    with "2.prems" have "s = s0" "b = []" "w = take (length (c # cs) - length (rest s)) (c # cs)" by auto
    moreover from exec_at_suffix[OF Some] obtain pre where "c # cs = pre @ rest s0" by blast
    ultimately show ?thesis by simp
  qed
qed

text \<open>The result of \<^verbatim>\<open>exec\<close>: \<^verbatim>\<open>m[0]\<close> and the groups \<^verbatim>\<open>m[1]\<close>, \<^verbatim>\<open>m[2]\<close>,
  ...; a group that took no part in the match is \<^verbatim>\<open>undefined\<close>, here \<open>None\<close>.\<close>

datatype rmatch = RMatch (m_whole: jstring) (m_groups: "nat \<Rightarrow> jstring option")

text \<open>\<^verbatim>\<open>t.match(re)\<close> for a pattern without the \<^verbatim>\<open>g\<close> flag; \<open>None\<close> is
  \<^verbatim>\<open>null\<close>.\<close>

definition js_match :: "rx \<Rightarrow> jstring \<Rightarrow> rmatch option" where
  "js_match r t = (case search r None t of None \<Rightarrow> None | Some (b, w, s) \<Rightarrow> Some (RMatch w (caps s)))"

text \<open>\<^verbatim>\<open>re.test(t)\<close>.\<close>

definition js_test :: "rx \<Rightarrow> jstring \<Rightarrow> bool" where
  "js_test r t = (search r None t \<noteq> None)"

text \<open>\<^verbatim>\<open>t.replace(re, repl)\<close> for a pattern without the \<^verbatim>\<open>g\<close> flag and a
  replacement without \<^verbatim>\<open>$\<close>: the first match is replaced.\<close>

definition js_replace :: "rx \<Rightarrow> jstring \<Rightarrow> jstring \<Rightarrow> jstring" where
  "js_replace r repl t = (case search r None t of None \<Rightarrow> t | Some (b, w, s) \<Rightarrow> b @ repl @ rest s)"

text \<open>\<^verbatim>\<open>t.match(re)\<close> for a pattern with the \<^verbatim>\<open>g\<close> flag: every match, each
  search starting where the last match ended (one unit further after an empty match). The
  empty list stands for \<^verbatim>\<open>null\<close>: the parser only iterates over the result.\<close>

function match_all_from :: "rx \<Rightarrow> cu option \<Rightarrow> jstring \<Rightarrow> jstring list" where
  "match_all_from r p t =
     (case search r p t of
        None \<Rightarrow> []
      | Some (b, w, s) \<Rightarrow>
          w # (if w = [] then (case rest s of [] \<Rightarrow> [] | c # cs \<Rightarrow> match_all_from r (Some c) cs)
               else match_all_from r (prev s) (rest s)))"
  by pat_completeness auto
termination
proof (relation "measure (\<lambda>(r, p, t). length t)")
  show "wf (measure (\<lambda>(r, p, t). length t))" by simp
next
  fix r p t x b y w s c cs
  assume "search r p t = Some x" "(b, y) = x" "(w, s) = y" "w = []" "rest s = c # cs"
  then have "search r p t = Some (b, w, s)" by simp
  from search_parts[OF this] \<open>rest s = c # cs\<close>
  show "((r, Some c, cs), (r, p, t)) \<in> measure (\<lambda>(r, p, t). length t)" by simp
next
  fix r p t x b y w s
  assume "search r p t = Some x" "(b, y) = x" "(w, s) = y" "w \<noteq> []"
  then have "search r p t = Some (b, w, s)" by simp
  from search_parts[OF this] \<open>w \<noteq> []\<close>
  show "((r, prev s, rest s), (r, p, t)) \<in> measure (\<lambda>(r, p, t). length t)" by simp
qed

declare match_all_from.simps [simp del]

definition js_match_all :: "rx \<Rightarrow> jstring \<Rightarrow> jstring list" where
  "js_match_all r t = match_all_from r None t"

section \<open>Writing down the patterns\<close>

text \<open>Quantifiers: \<^verbatim>\<open>a{n,m}\<close> is \<open>n\<close> rounds of \<open>a\<close> and then \<^verbatim>\<open>a{0,m-n}\<close>,
  \<^verbatim>\<open>a+\<close> is \<open>a\<close> and then \<^verbatim>\<open>a*\<close>, \<^verbatim>\<open>a?\<close> is \<^verbatim>\<open>a{0,1}\<close>.\<close>

fun rx_seq :: "rx list \<Rightarrow> rx" where
  "rx_seq [] = Epsilon"
| "rx_seq [r] = r"
| "rx_seq (r # rs) = Seq r (rx_seq rs)"

fun rx_alt :: "rx list \<Rightarrow> rx" where
  "rx_alt [] = Look False Epsilon"
| "rx_alt [r] = r"
| "rx_alt (r # rs) = Alt r (rx_alt rs)"

function rx_times :: "nat \<Rightarrow> rx \<Rightarrow> rx \<Rightarrow> rx" where
  "rx_times n a k = (if n = 0 then k else Seq a (rx_times (n - 1) a k))"
  by pat_completeness auto
termination
  by (relation "measure (\<lambda>(n, a, k). n)") auto

declare rx_times.simps [simp del]

definition rx_star :: "rx \<Rightarrow> rx" where
  "rx_star a = Star True a"

definition rx_lazy_star :: "rx \<Rightarrow> rx" where
  "rx_lazy_star a = Star False a"

definition rx_plus :: "rx \<Rightarrow> rx" where
  "rx_plus a = Seq a (Star True a)"

definition rx_opt :: "rx \<Rightarrow> rx" where
  "rx_opt a = Upto True 1 a"

definition rx_rep :: "nat \<Rightarrow> nat \<Rightarrow> rx \<Rightarrow> rx" where
  "rx_rep n m a = rx_times n a (Upto True (m - n) a)"

definition rx_rep_lazy :: "nat \<Rightarrow> nat \<Rightarrow> rx \<Rightarrow> rx" where
  "rx_rep_lazy n m a = rx_times n a (Upto False (m - n) a)"

definition rx_exactly :: "nat \<Rightarrow> rx \<Rightarrow> rx" where
  "rx_exactly n a = rx_times n a Epsilon"

definition rx_at_least :: "nat \<Rightarrow> rx \<Rightarrow> rx" where
  "rx_at_least n a = rx_times n a (Star True a)"

text \<open>A literal, as written and under the \<^verbatim>\<open>i\<close> flag.\<close>

definition lit :: "string \<Rightarrow> rx" where
  "lit s = rx_seq (map (\<lambda>c. Chr (\<lambda>x. x = of_char c)) s)"

definition liti :: "string \<Rightarrow> rx" where
  "liti s = rx_seq (map (\<lambda>c. Chr (ci (\<lambda>x. x = of_char c))) s)"

text \<open>\<^verbatim>\<open>\s\<close>, \<^verbatim>\<open>\d\<close>, \<^verbatim>\<open>[:\s]\<close>, \<^verbatim>\<open>\n\<close>, \<^verbatim>\<open>[^\n]\<close> and the degree sign.\<close>

definition ws :: rx where
  "ws = Chr is_space"

definition digit :: rx where
  "digit = Chr is_digit"

definition colon_ws :: rx where
  "colon_ws = Chr (\<lambda>c. c = 58 \<or> is_space c)"

definition newline :: rx where
  "newline = Chr (\<lambda>c. c = 10)"

definition not_newline :: rx where
  "not_newline = Chr (\<lambda>c. c \<noteq> 10)"

definition degree :: rx where
  "degree = Chr (\<lambda>c. c = 176)"

section \<open>The tables of the parser\<close>

definition CERT_BODIES :: "jstring list" where
  "CERT_BODIES =
    [str ''BASEEFA'', str ''SIRA'', str ''DEKRA'', str ''PTB'', str ''INERIS'', str ''CESI'', str ''LCIE'',
     str ''UL'', str ''FM'', str ''CSA Group'', str ''CSA'', str ''T'' @ [220] @ str ''V'', str ''TUV'',
     str ''SGS'', str ''ZELM'', str ''FTZU'',
     str ''NEMKO'', str ''DEMKO'', str ''KEMA'', str ''BVS'', str ''IBExU'', str ''CERCHAR'',
     str ''SIMTARS'', str ''MSHA'', str ''ITS'', str ''Intertek'', str ''Bureau Veritas'',
     str ''CML'', str ''Eurofins'', str ''Presafe'', str ''Fiditas'', str ''FIDITAS'',
     str ''ExVeritas'', str ''SGS-CSTC'', str ''CQM'', str ''PCEC'', str ''NEPSI'', str ''TIIS'',
     str ''KOSHA'', str ''KTL'', str ''PESO'', str ''CCOE'', str ''DNV GL'', str ''DNV'',
     str ''EXAM'', str ''Element'', str ''TestSafe'',
     str ''Physikalisch-Technische Bundesanstalt'']"

text \<open>The object tables are read only at keys the parser builds from matched text (a
  protection code, a gas group starting with \<^verbatim>\<open>I\<close>, \<^verbatim>\<open>T\<close> and a digit, an EPL),
  none of which is a property of \<^verbatim>\<open>Object.prototype\<close>; a missing key is \<open>None\<close>.\<close>

definition PROTECTION_TYPES :: "jstring \<Rightarrow> jstring option" where
  "PROTECTION_TYPES = map_of
    [(str ''d'', str ''Flameproof enclosure''),
     (str ''e'', str ''Increased safety''),
     (str ''i'', str ''Intrinsic safety''),
     (str ''p'', str ''Pressurized enclosure''),
     (str ''o'', str ''Oil immersion''),
     (str ''q'', str ''Powder/sand filling''),
     (str ''n'', str ''Non-sparking''),
     (str ''m'', str ''Encapsulation''),
     (str ''t'', str ''Protection by enclosure''),
     (str ''s'', str ''Special protection''),
     (str ''op'', str ''Optical radiation''),
     (str ''h'', str ''Non-incendive'')]"

definition GAS_GROUP_INFO :: "jstring \<Rightarrow> jstring option" where
  "GAS_GROUP_INFO = map_of
    [(str ''IIC'', str ''Hydrogen, acetylene (most stringent)''),
     (str ''IIB'', str ''Ethylene''),
     (str ''IIA'', str ''Propane (least stringent)''),
     (str ''I'', str ''Mining (methane)''),
     (str ''IIIA'', str ''Combustible flyings''),
     (str ''IIIB'', str ''Non-conductive dust''),
     (str ''IIIC'', str ''Conductive dust (most stringent)'')]"

definition TEMP_CLASS_INFO :: "jstring \<Rightarrow> jstring option" where
  "TEMP_CLASS_INFO = map_of
    [(str ''T1'', str ''450'' @ [176] @ str ''C''), (str ''T2'', str ''300'' @ [176] @ str ''C''),
     (str ''T3'', str ''200'' @ [176] @ str ''C''), (str ''T4'', str ''135'' @ [176] @ str ''C''),
     (str ''T5'', str ''100'' @ [176] @ str ''C''), (str ''T6'', str ''85'' @ [176] @ str ''C'')]"

definition VALID_PROT_CODES :: "jstring set" where
  "VALID_PROT_CODES = set (map str
    [''d'', ''da'', ''db'', ''dc'', ''e'', ''ea'', ''eb'', ''ec'', ''i'', ''ia'', ''ib'', ''ic'',
     ''p'', ''pa'', ''pb'', ''pc'', ''px'', ''py'', ''pz'', ''o'', ''ob'', ''oc'', ''q'', ''qa'', ''qb'',
     ''n'', ''na'', ''nc'', ''nr'', ''nl'', ''m'', ''ma'', ''mb'', ''mc'',
     ''t'', ''ta'', ''tb'', ''tc'', ''s'', ''h'', ''op''])"

definition eplZoneMap :: "jstring \<Rightarrow> jstring option" where
  "eplZoneMap = map_of
    [(str ''Ga'', str ''0''), (str ''Gb'', str ''1''), (str ''Gc'', str ''2''),
     (str ''Da'', str ''20''), (str ''Db'', str ''21''), (str ''Dc'', str ''22''),
     (str ''Ma'', str ''M1''), (str ''Mb'', str ''M2'')]"

section \<open>The patterns of the parser\<close>

subsection \<open>Certificate number\<close>

text \<open>\<^verbatim>\<open>/IECEx\s+[A-Z]{2,5}\s+\d{2}\.\d{3,5}[A-Z]?(?:\/\d+\.\d+)?/i\<close>\<close>

definition rx_iecex :: rx where
  "rx_iecex = rx_seq
    [liti ''IECEx'', rx_plus ws, rx_rep 2 5 (Chr (ci is_upper)), rx_plus ws,
     rx_exactly 2 digit, lit ''.'', rx_rep 3 5 digit, rx_opt (Chr (ci is_upper)),
     rx_opt (rx_seq [lit ''/'', rx_plus digit, lit ''.'', rx_plus digit])]"

text \<open>\<^verbatim>\<open>/[A-Z]{2,10}\s*\d{2}\s*ATEX\s*\d{3,5}\s*[XU]?(?:\s*\/\s*V?\d[\w]*)?/i\<close>\<close>

definition rx_atex :: rx where
  "rx_atex = rx_seq
    [rx_rep 2 10 (Chr (ci is_upper)), rx_star ws, rx_exactly 2 digit, rx_star ws, liti ''ATEX'',
     rx_star ws, rx_rep 3 5 digit, rx_star ws, rx_opt (Chr (ci (one_of ''XU''))),
     rx_opt (rx_seq [rx_star ws, lit ''/'', rx_star ws, rx_opt (liti ''V''), digit,
                     rx_star (Chr (ci is_word))])]"

text \<open>\<^verbatim>\<open>/UKCA\s+[A-Z0-9\-.\/]+/i\<close>\<close>

definition rx_ukca :: rx where
  "rx_ukca = rx_seq
    [liti ''UKCA'', rx_plus ws,
     rx_plus (Chr (ci (\<lambda>c. is_upper c \<or> is_digit c \<or> one_of ''-./'' c)))]"

text \<open>\<^verbatim>\<open>/\d{2}\s*ATEX\s*\d{3,5}/i\<close>\<close>

definition rx_atexAlso :: rx where
  "rx_atexAlso = rx_seq [rx_exactly 2 digit, rx_star ws, liti ''ATEX'', rx_star ws, rx_rep 3 5 digit]"

subsection \<open>Ex marking\<close>

text \<open>The pieces the five marking patterns share: \<^verbatim>\<open>\bEx\s+(?:[deimopqstnabrh]{1,4}\s+)+\<close>,
  \<^verbatim>\<open>(?:\[[a-z]{1,4}\]\s+)?\<close>, \<^verbatim>\<open>[ABC]*\<close>, \<^verbatim>\<open>(?:\+H2)?\<close>,
  \<^verbatim>\<open>T[1-6](?:\/T[1-6])*\<close> and \<^verbatim>\<open>[GDM][abc]\<close>, all under the \<^verbatim>\<open>i\<close> flag.\<close>

definition ex_types :: rx where
  "ex_types = rx_seq
    [Wordb, liti ''Ex'', rx_plus ws,
     rx_plus (rx_seq [rx_rep 1 4 (Chr (ci (one_of ''deimopqstnabrh''))), rx_plus ws])]"

definition ex_bracket :: rx where
  "ex_bracket = rx_opt (rx_seq [lit ''['', rx_rep 1 4 (Chr (ci is_lower)), lit '']'', rx_plus ws])"

definition ex_ABC :: rx where
  "ex_ABC = rx_star (Chr (ci (one_of ''ABC'')))"

definition ex_H2 :: rx where
  "ex_H2 = rx_opt (liti ''+H2'')"

definition ex_temps :: rx where
  "ex_temps = rx_seq [liti ''T'', Chr (in_range 49 54),
                      rx_star (rx_seq [lit ''/'', liti ''T'', Chr (in_range 49 54)])]"

definition ex_epl :: rx where
  "ex_epl = rx_seq [Chr (ci (one_of ''GDM'')), Chr (ci (one_of ''abc''))]"

text \<open>
  \<^verbatim>\<open>/\bEx\s+(?:[deimopqstnabrh]{1,4}\s+)+(?:\[[a-z]{1,4}\]\s+)?I{1,3}[ABC]*(?:\+H2)?\s+T[1-6](?:\/T[1-6])*\s*[GDM][abc](?:\/[GDM][abc])*/gi\<close>

  \<^verbatim>\<open>/\bEx\s+(?:[deimopqstnabrh]{1,4}\s+)+I\s+M[ab]/gi\<close>

  \<^verbatim>\<open>/\bEx\s+(?:[deimopqstnabrh]{1,4}\s+)+I{2,3}[ABC]*\s+T\d+(deg)?\s*C\s*[GDM][abc]/gi\<close>
  (\<^verbatim>\<open>(deg)\<close> is the degree sign)

  \<^verbatim>\<open>/\bEx\s+(?:[deimopqstnabrh]{1,4}\s+)+(?:\[[a-z]{1,4}\]\s+)?I{1,3}[ABC]*(?:\+H2)?\s+T[1-6](?:\/T[1-6])*/gi\<close>

  \<^verbatim>\<open>/\bEx\s+(?:[deimopqstnabrh]{1,4}\s+)+I{1,3}[ABC]*/gi\<close>
\<close>

definition markingPatterns :: "rx list" where
  "markingPatterns =
    [rx_seq [ex_types, ex_bracket, rx_rep 1 3 (liti ''I''), ex_ABC, ex_H2, rx_plus ws, ex_temps,
             rx_star ws, ex_epl, rx_star (rx_seq [lit ''/'', ex_epl])],
     rx_seq [ex_types, liti ''I'', rx_plus ws, liti ''M'', Chr (ci (one_of ''ab''))],
     rx_seq [ex_types, rx_rep 2 3 (liti ''I''), ex_ABC, rx_plus ws, liti ''T'', rx_plus digit,
             rx_opt degree, rx_star ws, liti ''C'', rx_star ws, ex_epl],
     rx_seq [ex_types, ex_bracket, rx_rep 1 3 (liti ''I''), ex_ABC, ex_H2, rx_plus ws, ex_temps],
     rx_seq [ex_types, rx_rep 1 3 (liti ''I''), ex_ABC]]"

subsection \<open>Protection types\<close>

text \<open>\<^verbatim>\<open>/^Ex\s+(.*?)(?:\[.*?\]\s*)?(?=I{1,3})/i\<close>, \<^verbatim>\<open>/[abc]$/\<close> and
  \<^verbatim>\<open>/[abcrs]$/\<close>\<close>

definition rx_protMatch :: rx where
  "rx_protMatch = rx_seq
    [Bos, liti ''Ex'', rx_plus ws, Grp 1 (rx_lazy_star (Chr is_dot)),
     rx_opt (rx_seq [lit ''['', rx_lazy_star (Chr is_dot), lit '']'', rx_star ws]),
     Look True (rx_rep 1 3 (liti ''I''))]"

definition rx_abc_end :: rx where
  "rx_abc_end = rx_seq [Chr (one_of ''abc''), Eos]"

definition rx_abcrs_end :: rx where
  "rx_abcrs_end = rx_seq [Chr (one_of ''abcrs''), Eos]"

subsection \<open>Gas group, temperature class, EPL, zone, IP rating, ambient temperature\<close>

text \<open>\<^verbatim>\<open>/\b(III[ABC]|II[ABC](?:\+H2)?)\b/\<close>,
  \<^verbatim>\<open>/\b(III[ABC]|II[ABC](?:\+H2)?|Group\s+I(?:I[ABC]?)?)\b/\<close> and
  \<^verbatim>\<open>/^Group\s+/i\<close>\<close>

definition rx_gasFromMarking :: rx where
  "rx_gasFromMarking = rx_seq
    [Wordb,
     Grp 1 (rx_alt [rx_seq [lit ''III'', Chr (one_of ''ABC'')],
                    rx_seq [lit ''II'', Chr (one_of ''ABC''), rx_opt (lit ''+H2'')]]),
     Wordb]"

definition rx_gasFromText :: rx where
  "rx_gasFromText = rx_seq
    [Wordb,
     Grp 1 (rx_alt [rx_seq [lit ''III'', Chr (one_of ''ABC'')],
                    rx_seq [lit ''II'', Chr (one_of ''ABC''), rx_opt (lit ''+H2'')],
                    rx_seq [lit ''Group'', rx_plus ws, lit ''I'',
                            rx_opt (rx_seq [lit ''I'', rx_opt (Chr (one_of ''ABC''))])]]),
     Wordb]"

definition rx_groupPrefix :: rx where
  "rx_groupPrefix = rx_seq [Bos, liti ''Group'', rx_plus ws]"

text \<open>\<^verbatim>\<open>/\bT([1-6])\b/\<close>\<close>

definition rx_temp :: rx where
  "rx_temp = rx_seq [Wordb, lit ''T'', Grp 1 (Chr (in_range 49 54)), Wordb]"

text \<open>\<^verbatim>\<open>/\b([GDM][abc])\b/\<close>\<close>

definition rx_epl :: rx where
  "rx_epl = rx_seq [Wordb, Grp 1 (rx_seq [Chr (one_of ''GDM''), Chr (one_of ''abc'')]), Wordb]"

text \<open>\<^verbatim>\<open>/Zone\s+(\d{1,2})/i\<close>\<close>

definition rx_zone :: rx where
  "rx_zone = rx_seq [liti ''Zone'', rx_plus ws, Grp 1 (rx_rep 1 2 digit)]"

text \<open>\<^verbatim>\<open>/\bIP\s*([0-9X]{2}[A-Z]?)\b/i\<close>\<close>

definition rx_ip :: rx where
  "rx_ip = rx_seq
    [Wordb, liti ''IP'', rx_star ws,
     Grp 1 (rx_seq [rx_exactly 2 (Chr (ci (\<lambda>c. is_digit c \<or> one_of ''X'' c))), rx_opt (Chr (ci is_upper))]),
     Wordb]"

text \<open>\<^verbatim>\<open>/(-\d+)\s*(deg)?\s*C?\s*(to|\.{2,3}|(en dash)|(em dash)|-)\s*\+?(\d+)\s*(deg)?\s*C/i\<close>\<close>

definition rx_amb :: rx where
  "rx_amb = rx_seq
    [Grp 1 (rx_seq [lit ''-'', rx_plus digit]), rx_star ws, rx_opt degree, rx_star ws,
     rx_opt (liti ''C''), rx_star ws,
     Grp 2 (rx_alt [liti ''to'', rx_rep 2 3 (lit ''.''), Chr (\<lambda>c. c = 8211), Chr (\<lambda>c. c = 8212), lit ''-'']),
     rx_star ws, rx_opt (lit ''+''), Grp 3 (rx_plus digit), rx_star ws, rx_opt degree, rx_star ws,
     liti ''C'']"

subsection \<open>Manufacturer and equipment\<close>

text \<open>A label and its value on the next line, \<^verbatim>\<open>LABEL[:\s]*\n\s*([^\n]{3,n})\<close>, or on the
  same line, \<^verbatim>\<open>LABEL[:\s]+([^\n]{3,n})\<close>.\<close>

definition value_next_line :: "nat \<Rightarrow> rx" where
  "value_next_line n = rx_seq [rx_star colon_ws, newline, rx_star ws, Grp 1 (rx_rep 3 n not_newline)]"

definition value_same_line :: "nat \<Rightarrow> rx" where
  "value_same_line n = rx_seq [rx_plus colon_ws, Grp 1 (rx_rep 3 n not_newline)]"

text \<open>
  \<^verbatim>\<open>/Manufacturer[:\s]*\n\s*Address[:\s]*\n\s*([^\n]{3,80})/i\<close>,
  \<^verbatim>\<open>/Manufacturer[:\s]*\n\s*([^\n]{3,80})/i\<close>,
  \<^verbatim>\<open>/Manufacturer[:\s]+([^\n]{3,80})/i\<close>,
  \<^verbatim>\<open>/Applicant[:\s]*\n\s*([^\n]{3,80})/i\<close>,
  \<^verbatim>\<open>/Applicant[:\s]+([^\n]{3,80})/i\<close>,
  \<^verbatim>\<open>/Issued\s+to[:\s]*\n\s*([^\n]{3,80})/i\<close>,
  \<^verbatim>\<open>/Issued\s+to[:\s]+([^\n]{3,80})/i\<close>
\<close>

definition mfrPatterns :: "rx list" where
  "mfrPatterns =
    [rx_seq [liti ''Manufacturer'', rx_star colon_ws, newline, rx_star ws, liti ''Address'', value_next_line 80],
     rx_seq [liti ''Manufacturer'', value_next_line 80],
     rx_seq [liti ''Manufacturer'', value_same_line 80],
     rx_seq [liti ''Applicant'', value_next_line 80],
     rx_seq [liti ''Applicant'', value_same_line 80],
     rx_seq [liti ''Issued'', rx_plus ws, liti ''to'', value_next_line 80],
     rx_seq [liti ''Issued'', rx_plus ws, liti ''to'', value_same_line 80]]"

text \<open>\<^verbatim>\<open>/^(Address|Name|Location|see\b|refer\b|as\s)/i\<close> and \<^verbatim>\<open>/[,\s]+$/\<close>\<close>

definition rx_mfrDeny :: rx where
  "rx_mfrDeny = rx_seq
    [Bos, Grp 1 (rx_alt [liti ''Address'', liti ''Name'', liti ''Location'', rx_seq [liti ''see'', Wordb],
                         rx_seq [liti ''refer'', Wordb], rx_seq [liti ''as'', ws]])]"

definition rx_trailing :: rx where
  "rx_trailing = rx_seq [rx_plus (Chr (\<lambda>c. c = 44 \<or> is_space c)), Eos]"

text \<open>
  \<^verbatim>\<open>/Equipment[:\s]*\n\s*(?!Group)([^\n]{3,120})/i\<close>,
  \<^verbatim>\<open>/Equipment[:\s]+(?!Group)([^\n]{3,120})/i\<close>,
  \<^verbatim>\<open>/Apparatus[:\s]+([^\n]{3,120})/i\<close>,
  \<^verbatim>\<open>/Type\s+of\s+Equipment[:\s]+([^\n]{3,120})/i\<close>,
  \<^verbatim>\<open>/Product[:\s]*\n\s*([^\n]{3,120})/i\<close>,
  \<^verbatim>\<open>/Product[:\s]+([^\n]{3,120})/i\<close>
\<close>

definition eqPatterns :: "rx list" where
  "eqPatterns =
    [rx_seq [liti ''Equipment'', rx_star colon_ws, newline, rx_star ws, Look False (liti ''Group''),
             Grp 1 (rx_rep 3 120 not_newline)],
     rx_seq [liti ''Equipment'', rx_plus colon_ws, Look False (liti ''Group''),
             Grp 1 (rx_rep 3 120 not_newline)],
     rx_seq [liti ''Apparatus'', value_same_line 120],
     rx_seq [liti ''Type'', rx_plus ws, liti ''of'', rx_plus ws, liti ''Equipment'', value_same_line 120],
     rx_seq [liti ''Product'', value_next_line 120],
     rx_seq [liti ''Product'', value_same_line 120]]"

text \<open>\<^verbatim>\<open>/^(or\s+Protective|Intended\s+for|listed\s+in)/i\<close>\<close>

definition rx_eqDeny :: rx where
  "rx_eqDeny = rx_seq
    [Bos, Grp 1 (rx_alt [rx_seq [liti ''or'', rx_plus ws, liti ''Protective''],
                         rx_seq [liti ''Intended'', rx_plus ws, liti ''for''],
                         rx_seq [liti ''listed'', rx_plus ws, liti ''in'']])]"

subsection \<open>Dates\<close>

text \<open>The two date shapes, \<^verbatim>\<open>(\d{4}[-/]\d{2}[-/]\d{2})\<close> and
  \<^verbatim>\<open>(\d{1,2}[\s./-]\w{3,9}[\s./-]\d{4})\<close>.\<close>

definition date_iso :: rx where
  "date_iso = Grp 1 (rx_seq [rx_exactly 4 digit, Chr (one_of ''-/''), rx_exactly 2 digit,
                             Chr (one_of ''-/''), rx_exactly 2 digit])"

definition date_dmy :: rx where
  "date_dmy = Grp 1 (rx_seq [rx_rep 1 2 digit, Chr (\<lambda>c. is_space c \<or> one_of ''./-'' c),
                             rx_rep 3 9 (Chr (ci is_word)),
                             Chr (\<lambda>c. is_space c \<or> one_of ''./-'' c), rx_exactly 4 digit])"

text \<open>
  \<^verbatim>\<open>/Date\s+of\s+Issue[:\s]*\n?\s*(\d{4}[-/]\d{2}[-/]\d{2})/i\<close>,
  \<^verbatim>\<open>/Date\s+of\s+Issue[:\s]+(\d{1,2}[\s./-]\w{3,9}[\s./-]\d{4})/i\<close>,
  \<^verbatim>\<open>/Issue\s*(?:d|Date)[:\s]+(\d{4}[-/]\d{2}[-/]\d{2})/i\<close>,
  \<^verbatim>\<open>/Issue\s*(?:d|Date)[:\s]+(\d{1,2}[\s./-]\w{3,9}[\s./-]\d{4})/i\<close>,
  \<^verbatim>\<open>/Issued[:\s]+(\d{1,2}[\s./-]\w{3,9}[\s./-]\d{4})/i\<close>
\<close>

definition issuePats :: "rx list" where
  "issuePats =
    [rx_seq [liti ''Date'', rx_plus ws, liti ''of'', rx_plus ws, liti ''Issue'', rx_star colon_ws,
             rx_opt newline, rx_star ws, date_iso],
     rx_seq [liti ''Date'', rx_plus ws, liti ''of'', rx_plus ws, liti ''Issue'', rx_plus colon_ws, date_dmy],
     rx_seq [liti ''Issue'', rx_star ws, rx_alt [liti ''d'', liti ''Date''], rx_plus colon_ws, date_iso],
     rx_seq [liti ''Issue'', rx_star ws, rx_alt [liti ''d'', liti ''Date''], rx_plus colon_ws, date_dmy],
     rx_seq [liti ''Issued'', rx_plus colon_ws, date_dmy]]"

text \<open>
  \<^verbatim>\<open>/Expir[ey]\s*(?:Date)?[:\s]+(\d{4}[-/]\d{2}[-/]\d{2})/i\<close>,
  \<^verbatim>\<open>/Expir[ey]\s*(?:Date)?[:\s]+(\d{1,2}[\s./-]\w{3,9}[\s./-]\d{4})/i\<close>,
  \<^verbatim>\<open>/Valid\s+(?:until|to)[:\s]+(\d{4}[-/]\d{2}[-/]\d{2})/i\<close>,
  \<^verbatim>\<open>/Valid\s+(?:until|to)[:\s]+(\d{1,2}[\s./-]\w{3,9}[\s./-]\d{4})/i\<close>,
  \<^verbatim>\<open>/Validity[:\s]+(\d{1,2}[\s./-]\w{3,9}[\s./-]\d{4})/i\<close>
\<close>

definition expiryPats :: "rx list" where
  "expiryPats =
    [rx_seq [liti ''Expir'', Chr (ci (one_of ''ey'')), rx_star ws, rx_opt (liti ''Date''), rx_plus colon_ws,
             date_iso],
     rx_seq [liti ''Expir'', Chr (ci (one_of ''ey'')), rx_star ws, rx_opt (liti ''Date''), rx_plus colon_ws,
             date_dmy],
     rx_seq [liti ''Valid'', rx_plus ws, rx_alt [liti ''until'', liti ''to''], rx_plus colon_ws, date_iso],
     rx_seq [liti ''Valid'', rx_plus ws, rx_alt [liti ''until'', liti ''to''], rx_plus colon_ws, date_dmy],
     rx_seq [liti ''Validity'', rx_plus colon_ws, date_dmy]]"

subsection \<open>Special conditions, standards, category, equipment group\<close>

text \<open>\<^verbatim>\<open>/Special\s+[Cc]onditions?\s*(?:for\s+(?:safe\s+)?use)?[:\s]+([\s\S]{10,500}?)(?=\n\s*\n|\n[A-Z]{2,}|\n\d+\.\s|$)/i\<close>\<close>

definition rx_spec :: rx where
  "rx_spec = rx_seq
    [liti ''Special'', rx_plus ws, Chr (ci (one_of ''Cc'')), liti ''ondition'', rx_opt (liti ''s''),
     rx_star ws,
     rx_opt (rx_seq [liti ''for'', rx_plus ws, rx_opt (rx_seq [liti ''safe'', rx_plus ws]), liti ''use'']),
     rx_plus colon_ws,
     Grp 1 (rx_rep_lazy 10 500 (Chr (\<lambda>c. True))),
     Look True (rx_alt [rx_seq [newline, rx_star ws, newline],
                        rx_seq [newline, rx_at_least 2 (Chr (ci is_upper))],
                        rx_seq [newline, rx_plus digit, lit ''.'', ws],
                        Eos])]"

text \<open>\<^verbatim>\<open>/(?:EN\s+)?(?:IEC\s*)?60079-\d+(?::\d{4})?(?:\+A\d+:\d{4})*/gi\<close>\<close>

definition rx_std :: rx where
  "rx_std = rx_seq
    [rx_opt (rx_seq [liti ''EN'', rx_plus ws]), rx_opt (rx_seq [liti ''IEC'', rx_star ws]),
     lit ''60079-'', rx_plus digit, rx_opt (rx_seq [lit '':'', rx_exactly 4 digit]),
     rx_star (rx_seq [lit ''+'', liti ''A'', rx_plus digit, lit '':'', rx_exactly 4 digit])]"

text \<open>\<^verbatim>\<open>/\bII\s+([1-3])\s+[GDM]\b/\<close> and \<^verbatim>\<open>/\bCategory\s+([1-3][GDM]?)\b/i\<close>\<close>

definition rx_catII :: rx where
  "rx_catII = rx_seq
    [Wordb, lit ''II'', rx_plus ws, Grp 1 (Chr (in_range 49 51)), rx_plus ws, Chr (one_of ''GDM''), Wordb]"

definition rx_catLabel :: rx where
  "rx_catLabel = rx_seq
    [Wordb, liti ''Category'', rx_plus ws,
     Grp 1 (rx_seq [Chr (in_range 49 51), rx_opt (Chr (ci (one_of ''GDM'')))]), Wordb]"

text \<open>\<^verbatim>\<open>/Equipment\s+[Gg]roup\s+(I{1,3})/\<close> and \<^verbatim>\<open>/\b(I{2,3})\s+[1-3]\s+[GDM]\b/\<close>\<close>

definition rx_grp :: rx where
  "rx_grp = rx_seq
    [lit ''Equipment'', rx_plus ws, Chr (one_of ''Gg''), lit ''roup'', rx_plus ws,
     Grp 1 (rx_rep 1 3 (lit ''I''))]"

definition rx_grpAlt :: rx where
  "rx_grpAlt = rx_seq
    [Wordb, Grp 1 (rx_rep 2 3 (lit ''I'')), rx_plus ws, Chr (in_range 49 51), rx_plus ws,
     Chr (one_of ''GDM''), Wordb]"

section \<open>The record and JavaScript's values\<close>

text \<open>An optional string field is \<^verbatim>\<open>null\<close> (\<open>None\<close>) or a string. \<^verbatim>\<open>!x\<close> holds
  for \<^verbatim>\<open>null\<close>, \<^verbatim>\<open>undefined\<close> and the empty string.\<close>

record prot_type =
  code :: jstring
  baseType :: jstring
  level :: "jstring option"
  description :: jstring

record result =
  certNumber :: "jstring option"
  certType :: "jstring option"
  marking :: "jstring option"
  markings :: "jstring list"
  protectionTypes :: "prot_type list"
  gasGroup :: "jstring option"
  gasGroupInfo :: "jstring option"
  tempClass :: "jstring option"
  tempClassMax :: "jstring option"
  epl :: "jstring option"
  zone :: "jstring option"
  ipRating :: "jstring option"
  ambientTemp :: "jstring option"
  manufacturer :: "jstring option"
  equipment :: "jstring option"
  notifiedBody :: "jstring option"
  issueDate :: "jstring option"
  expiryDate :: "jstring option"
  specialConditions :: "jstring option"
  standard :: "jstring option"
  category :: "jstring option"
  group' :: "jstring option"
  raw :: jstring

datatype error = TypeError

fun falsy :: "jstring option \<Rightarrow> bool" where
  "falsy None = True"
| "falsy (Some s) = (s = [])"

text \<open>\<^verbatim>\<open>x || ''\<close> and \<^verbatim>\<open>a || b\<close> on optional strings.\<close>

fun or_empty :: "jstring option \<Rightarrow> jstring" where
  "or_empty None = []"
| "or_empty (Some s) = s"

definition or_else :: "jstring option \<Rightarrow> jstring option \<Rightarrow> jstring option" where
  "or_else a b = (if falsy a then b else a)"

text \<open>A group that took no part in a match is \<^verbatim>\<open>undefined\<close>: calling a method on it
  (\<^verbatim>\<open>m[1].trim()\<close>) throws a TypeError, string concatenation turns it into the text
  \<^verbatim>\<open>undefined\<close>, and storing it in a field leaves the field without a value (the
  model stores \<open>None\<close>; \<^verbatim>\<open>confidence\<close> and the parser itself treat \<^verbatim>\<open>null\<close> and
  \<^verbatim>\<open>undefined\<close> alike).\<close>

fun method_on :: "jstring option \<Rightarrow> error + jstring" where
  "method_on None = Inl TypeError"
| "method_on (Some s) = Inr s"

fun js_to_string :: "jstring option \<Rightarrow> jstring" where
  "js_to_string None = str ''undefined''"
| "js_to_string (Some s) = s"

text \<open>The record \<^verbatim>\<open>parse\<close> starts from.\<close>

definition empty_result :: "jstring \<Rightarrow> result" where
  "empty_result text =
    \<lparr>certNumber = None, certType = None, marking = None, markings = [], protectionTypes = [],
     gasGroup = None, gasGroupInfo = None, tempClass = None, tempClassMax = None, epl = None,
     zone = None, ipRating = None, ambientTemp = None, manufacturer = None, equipment = None,
     notifiedBody = None, issueDate = None, expiryDate = None, specialConditions = None,
     standard = None, category = None, group' = None, raw = text\<rparr>"

section \<open>The sections of parse\<close>

text \<open>Each section of \<^verbatim>\<open>parse\<close> reads the text \<open>t\<close> and the record built so far and
  returns the record with its fields assigned. A section that calls a method on a group
  returns \<open>error + result\<close>.\<close>

subsection \<open>Certificate number\<close>

definition cert_iecex :: "jstring \<Rightarrow> result \<Rightarrow> result" where
  "cert_iecex t r =
    (case js_match rx_iecex t of
       None \<Rightarrow> r
     | Some iecex \<Rightarrow> r\<lparr>certNumber := Some (trim (collapse_ws (m_whole iecex))),
                       certType := Some (str ''IECEx'')\<rparr>)"

definition cert_atex :: "jstring \<Rightarrow> result \<Rightarrow> result" where
  "cert_atex t r =
    (if falsy (certNumber r) then
       (case js_match rx_atex t of
          None \<Rightarrow> r
        | Some atex \<Rightarrow> r\<lparr>certNumber := Some (trim (remove_ws (m_whole atex))),
                         certType := Some (str ''ATEX'')\<rparr>)
     else r)"

definition cert_ukca :: "jstring \<Rightarrow> result \<Rightarrow> result" where
  "cert_ukca t r =
    (if falsy (certNumber r) then
       (case js_match rx_ukca t of
          None \<Rightarrow> r
        | Some ukca \<Rightarrow> r\<lparr>certNumber := Some (trim (m_whole ukca)), certType := Some (str ''UKCA'')\<rparr>)
     else r)"

definition cert_dual :: "jstring \<Rightarrow> result \<Rightarrow> result" where
  "cert_dual t r =
    (if certType r = Some (str ''IECEx'') then
       (case js_match rx_atexAlso t of
          None \<Rightarrow> r
        | Some atexAlso \<Rightarrow> r\<lparr>certType := Some (str ''IECEx + ATEX'')\<rparr>)
     else r)"

definition parse_certNumber :: "jstring \<Rightarrow> result \<Rightarrow> result" where
  "parse_certNumber t r = cert_dual t (cert_ukca t (cert_atex t (cert_iecex t r)))"

subsection \<open>Full Ex marking\<close>

text \<open>The inner loop over the matches of one pattern and the outer loop over the patterns;
  the state is \<^verbatim>\<open>allMarkings\<close> and \<^verbatim>\<open>seenMarkings\<close>.\<close>

fun collect_matches :: "jstring list \<Rightarrow> jstring list \<times> jstring set \<Rightarrow> jstring list \<times> jstring set" where
  "collect_matches [] acc = acc"
| "collect_matches (m # ms) (allMarkings, seenMarkings) =
     (let cleaned = collapse_ws (trim m)
      in if cleaned \<in> seenMarkings then collect_matches ms (allMarkings, seenMarkings)
         else collect_matches ms (allMarkings @ [cleaned], insert cleaned seenMarkings))"

fun collect_patterns :: "rx list \<Rightarrow> jstring \<Rightarrow> jstring list \<times> jstring set \<Rightarrow> jstring list \<times> jstring set" where
  "collect_patterns [] t acc = acc"
| "collect_patterns (pat # pats) t acc = collect_patterns pats t (collect_matches (js_match_all pat t) acc)"

definition parse_marking :: "jstring \<Rightarrow> result \<Rightarrow> result" where
  "parse_marking t r =
    (let allMarkings = fst (collect_patterns markingPatterns t ([], {}))
     in if length allMarkings > 0 then
          (case sort_longest_first allMarkings of
             [] \<Rightarrow> r\<lparr>marking := None, markings := []\<rparr>
           | m # ms \<Rightarrow> r\<lparr>marking := Some m, markings := m # ms\<rparr>)
        else r)"

subsection \<open>Protection types\<close>

definition valid_code :: "jstring \<Rightarrow> bool" where
  "valid_code c =
    (let cl = toLowerCase c
     in cl \<in> VALID_PROT_CODES \<or> js_replace rx_abc_end [] cl \<in> VALID_PROT_CODES)"

definition decompose_code :: "jstring \<Rightarrow> prot_type" where
  "decompose_code c =
    (let cl = toLowerCase c;
         baseCode = js_replace rx_abcrs_end [] cl;
         lvl = (case js_match rx_abc_end cl of None \<Rightarrow> None | Some m \<Rightarrow> or_else (Some (m_whole m)) None)
     in \<lparr>code = c, baseType = baseCode, level = lvl,
         description = (case or_else (or_else (PROTECTION_TYPES baseCode) (PROTECTION_TYPES cl))
                                     (Some (str ''Unknown'')) of
                          None \<Rightarrow> str ''Unknown'' | Some d \<Rightarrow> d)\<rparr>)"

definition parse_protectionTypes :: "jstring \<Rightarrow> result \<Rightarrow> error + result" where
  "parse_protectionTypes t r =
    (let markingSrc = or_empty (marking r)
     in case js_match rx_protMatch markingSrc of
          None \<Rightarrow> Inr r
        | Some protMatch \<Rightarrow>
            (case method_on (m_groups protMatch 1) of
               Inl e \<Rightarrow> Inl e
             | Inr g \<Rightarrow> Inr (r\<lparr>protectionTypes :=
                               map decompose_code (filter valid_code (split_ws (trim g)))\<rparr>)))"

subsection \<open>Gas group, temperature class, EPL\<close>

definition parse_gasGroup :: "jstring \<Rightarrow> result \<Rightarrow> error + result" where
  "parse_gasGroup t r =
    (let markingSrc = or_empty (marking r)
     in case (case js_match rx_gasFromMarking markingSrc of
                Some gasFromMarking \<Rightarrow> Some gasFromMarking
              | None \<Rightarrow> js_match rx_gasFromText t) of
          None \<Rightarrow> Inr r
        | Some gasMatch \<Rightarrow>
            (case method_on (m_groups gasMatch 1) of
               Inl e \<Rightarrow> Inl e
             | Inr g \<Rightarrow> (let grp = js_replace rx_groupPrefix [] g
                         in Inr (r\<lparr>gasGroup := Some grp, gasGroupInfo := GAS_GROUP_INFO grp\<rparr>))))"

definition parse_tempClass :: "jstring \<Rightarrow> result \<Rightarrow> result" where
  "parse_tempClass t r =
    (let markingSrc = or_empty (marking r)
     in case (case js_match rx_temp markingSrc of
                Some tempFromMarking \<Rightarrow> Some tempFromMarking
              | None \<Rightarrow> js_match rx_temp t) of
          None \<Rightarrow> r
        | Some tempMatch \<Rightarrow>
            r\<lparr>tempClass := Some (str ''T'' @ js_to_string (m_groups tempMatch 1)),
              tempClassMax := TEMP_CLASS_INFO (str ''T'' @ js_to_string (m_groups tempMatch 1))\<rparr>)"

definition parse_epl :: "jstring \<Rightarrow> result \<Rightarrow> result" where
  "parse_epl t r =
    (let markingSrc = or_empty (marking r)
     in case (case js_match rx_epl markingSrc of
                Some eplFromMarking \<Rightarrow> Some eplFromMarking
              | None \<Rightarrow> js_match rx_epl t) of
          None \<Rightarrow> r
        | Some eplMatch \<Rightarrow> r\<lparr>epl := m_groups eplMatch 1\<rparr>)"

subsection \<open>Zone\<close>

definition parse_zone :: "jstring \<Rightarrow> result \<Rightarrow> result" where
  "parse_zone t r =
    (case js_match rx_zone t of
       Some zoneMatch \<Rightarrow> r\<lparr>zone := Some (str ''Zone '' @ js_to_string (m_groups zoneMatch 1))\<rparr>
     | None \<Rightarrow>
         (if falsy (epl r) then r
          else (let derived = eplZoneMap (or_empty (epl r))
                in if falsy derived then r
                   else r\<lparr>zone := Some (str ''Zone '' @ or_empty derived @ str '' (derived from EPL)'')\<rparr>)))"

subsection \<open>IP rating and ambient temperature\<close>

definition parse_ipRating :: "jstring \<Rightarrow> result \<Rightarrow> result" where
  "parse_ipRating t r =
    (case js_match rx_ip t of
       None \<Rightarrow> r
     | Some ipMatch \<Rightarrow> r\<lparr>ipRating := Some (str ''IP'' @ js_to_string (m_groups ipMatch 1))\<rparr>)"

definition parse_ambientTemp :: "jstring \<Rightarrow> result \<Rightarrow> result" where
  "parse_ambientTemp t r =
    (case js_match rx_amb t of
       None \<Rightarrow> r
     | Some ambMatch \<Rightarrow>
         r\<lparr>ambientTemp := Some (js_to_string (m_groups ambMatch 1) @ [176] @ str ''C to +''
                                @ js_to_string (m_groups ambMatch 3) @ [176] @ str ''C'')\<rparr>)"

subsection \<open>Manufacturer and equipment\<close>

text \<open>The two loops have one shape: the first pattern that matches with a value that is
  not on the deny list and has at least three units wins; \<^verbatim>\<open>continue\<close> goes on with
  the next pattern.\<close>

fun labelled_value :: "rx \<Rightarrow> rx list \<Rightarrow> jstring \<Rightarrow> error + jstring option" where
  "labelled_value deny [] t = Inr None"
| "labelled_value deny (pat # pats) t =
     (case js_match pat t of
        None \<Rightarrow> labelled_value deny pats t
      | Some m \<Rightarrow>
          (case method_on (m_groups m 1) of
             Inl e \<Rightarrow> Inl e
           | Inr g \<Rightarrow>
               (let val = js_replace rx_trailing [] (trim g)
                in if js_test deny val then labelled_value deny pats t
                   else if length val < 3 then labelled_value deny pats t
                   else Inr (Some val))))"

definition parse_manufacturer :: "jstring \<Rightarrow> result \<Rightarrow> error + result" where
  "parse_manufacturer t r =
    (case labelled_value rx_mfrDeny mfrPatterns t of
       Inl e \<Rightarrow> Inl e
     | Inr None \<Rightarrow> Inr r
     | Inr (Some val) \<Rightarrow> Inr (r\<lparr>manufacturer := Some val\<rparr>))"

definition parse_equipment :: "jstring \<Rightarrow> result \<Rightarrow> error + result" where
  "parse_equipment t r =
    (case labelled_value rx_eqDeny eqPatterns t of
       Inl e \<Rightarrow> Inl e
     | Inr None \<Rightarrow> Inr r
     | Inr (Some val) \<Rightarrow> Inr (r\<lparr>equipment := Some val\<rparr>))"

subsection \<open>Notified body\<close>

definition sortedBodies :: "jstring list" where
  "sortedBodies = sort_longest_first CERT_BODIES"

definition parse_notifiedBody :: "jstring \<Rightarrow> result \<Rightarrow> result" where
  "parse_notifiedBody t r =
    (case find (\<lambda>body. js_includes t body) sortedBodies of
       None \<Rightarrow> r
     | Some body \<Rightarrow> r\<lparr>notifiedBody := Some body\<rparr>)"

subsection \<open>Dates\<close>

fun first_date :: "rx list \<Rightarrow> jstring \<Rightarrow> error + jstring option" where
  "first_date [] t = Inr None"
| "first_date (pat # pats) t =
     (case js_match pat t of
        None \<Rightarrow> first_date pats t
      | Some m \<Rightarrow> (case method_on (m_groups m 1) of Inl e \<Rightarrow> Inl e | Inr g \<Rightarrow> Inr (Some (trim g))))"

definition parse_issueDate :: "jstring \<Rightarrow> result \<Rightarrow> error + result" where
  "parse_issueDate t r =
    (case first_date issuePats t of
       Inl e \<Rightarrow> Inl e
     | Inr None \<Rightarrow> Inr r
     | Inr (Some d) \<Rightarrow> Inr (r\<lparr>issueDate := Some d\<rparr>))"

definition parse_expiryDate :: "jstring \<Rightarrow> result \<Rightarrow> error + result" where
  "parse_expiryDate t r =
    (case first_date expiryPats t of
       Inl e \<Rightarrow> Inl e
     | Inr None \<Rightarrow> Inr r
     | Inr (Some d) \<Rightarrow> Inr (r\<lparr>expiryDate := Some d\<rparr>))"

subsection \<open>Special conditions, standards, category, equipment group\<close>

definition parse_specialConditions :: "jstring \<Rightarrow> result \<Rightarrow> error + result" where
  "parse_specialConditions t r =
    (case js_match rx_spec t of
       None \<Rightarrow> Inr r
     | Some specMatch \<Rightarrow>
         (case method_on (m_groups specMatch 1) of
            Inl e \<Rightarrow> Inl e
          | Inr g \<Rightarrow> Inr (r\<lparr>specialConditions := Some (take 500 (trim g))\<rparr>)))"

definition parse_standard :: "jstring \<Rightarrow> result \<Rightarrow> result" where
  "parse_standard t r =
    (let stdMatches = js_match_all rx_std t
     in if stdMatches = [] then r
        else r\<lparr>standard := Some (join_comma (dedupe (map trim stdMatches)))\<rparr>)"

definition parse_category :: "jstring \<Rightarrow> result \<Rightarrow> result" where
  "parse_category t r =
    (case (case js_match rx_catII t of Some m \<Rightarrow> Some m | None \<Rightarrow> js_match rx_catLabel t) of
       None \<Rightarrow> r
     | Some catMatch \<Rightarrow> r\<lparr>category := m_groups catMatch 1\<rparr>)"

definition parse_group :: "jstring \<Rightarrow> result \<Rightarrow> result" where
  "parse_group t r =
    (case js_match rx_grp t of
       Some grpMatch \<Rightarrow> r\<lparr>group' := m_groups grpMatch 1\<rparr>
     | None \<Rightarrow>
         (case js_match rx_grpAlt t of
            None \<Rightarrow> r
          | Some grpAlt \<Rightarrow> r\<lparr>group' := m_groups grpAlt 1\<rparr>))"

section \<open>parse and confidence\<close>

text \<open>The sections run in the order of the source; the first one that throws ends the
  call with its error.\<close>

fun run_steps :: "(result \<Rightarrow> error + result) list \<Rightarrow> result \<Rightarrow> error + result" where
  "run_steps [] r = Inr r"
| "run_steps (f # fs) r = (case f r of Inl e \<Rightarrow> Inl e | Inr r' \<Rightarrow> run_steps fs r')"

definition no_throw :: "(result \<Rightarrow> result) \<Rightarrow> result \<Rightarrow> error + result" where
  "no_throw f r = Inr (f r)"

definition sections :: "jstring \<Rightarrow> (result \<Rightarrow> error + result) list" where
  "sections text =
     [no_throw (parse_certNumber text),
      no_throw (parse_marking text),
      parse_protectionTypes text,
      parse_gasGroup text,
      no_throw (parse_tempClass text),
      no_throw (parse_epl text),
      no_throw (parse_zone text),
      no_throw (parse_ipRating text),
      no_throw (parse_ambientTemp text),
      parse_manufacturer text,
      parse_equipment text,
      no_throw (parse_notifiedBody text),
      parse_issueDate text,
      parse_expiryDate text,
      parse_specialConditions text,
      no_throw (parse_standard text),
      no_throw (parse_category text),
      no_throw (parse_group text)]"

definition parse :: "jstring \<Rightarrow> error + result" where
  "parse text = run_steps (sections text) (empty_result text)"

text \<open>\<^verbatim>\<open>confidence\<close>: the weights in the order of the table; a field counts when its
  value is truthy, and the array \<^verbatim>\<open>protectionTypes\<close> when it is not empty.\<close>

definition weights :: "((result \<Rightarrow> bool) \<times> int) list" where
  "weights =
    [(\<lambda>r. \<not> falsy (certNumber r), 20),
     (\<lambda>r. \<not> falsy (marking r), 20),
     (\<lambda>r. \<not> falsy (gasGroup r), 10),
     (\<lambda>r. \<not> falsy (tempClass r), 10),
     (\<lambda>r. length (protectionTypes r) > 0, 10),
     (\<lambda>r. \<not> falsy (epl r), 5),
     (\<lambda>r. \<not> falsy (manufacturer r), 5),
     (\<lambda>r. \<not> falsy (equipment r), 5),
     (\<lambda>r. \<not> falsy (notifiedBody r), 5),
     (\<lambda>r. \<not> falsy (ipRating r), 3),
     (\<lambda>r. \<not> falsy (ambientTemp r), 3),
     (\<lambda>r. \<not> falsy (issueDate r), 2),
     (\<lambda>r. \<not> falsy (expiryDate r), 2)]"

fun add_weights :: "((result \<Rightarrow> bool) \<times> int) list \<Rightarrow> result \<Rightarrow> int \<Rightarrow> int" where
  "add_weights [] r score = score"
| "add_weights ((present, weight) # others) r score =
     add_weights others r (if present r then score + weight else score)"

definition confidence :: "result \<Rightarrow> int" where
  "confidence r = min 100 (add_weights weights r 0)"

section \<open>The confidence score\<close>

lemma add_weights_lower:
  "\<forall>(present, weight) \<in> set table. 0 \<le> weight \<Longrightarrow> score \<le> add_weights table r score"
proof (induction table arbitrary: score)
  case Nil
  then show ?case by simp
next
  case (Cons pw table)
  obtain present weight where pw: "pw = (present, weight)" by (cases pw)
  with Cons.prems have w: "0 \<le> weight" and rest: "\<forall>(present, weight) \<in> set table. 0 \<le> weight"
    by auto
  have "score \<le> (if present r then score + weight else score)" using w by simp
  also have "\<dots> \<le> add_weights table r (if present r then score + weight else score)"
    by (rule Cons.IH[OF rest])
  finally show ?case by (simp add: pw)
qed

lemma weights_nonneg: "\<forall>(present, weight) \<in> set weights. 0 \<le> weight"
  by (simp add: weights_def)

text \<open>
  Claim C7. For every record, whatever fields are present or absent, \<open>confidence\<close> is
  an integer between 0 and 100: the score starts at 0, only non-negative weights are added,
  and the result is capped by \<^verbatim>\<open>Math.min(100, score)\<close>.
\<close>

theorem confidence_bounds: "0 \<le> confidence r \<and> confidence r \<le> 100"
  using add_weights_lower[OF weights_nonneg, of 0 r] by (simp add: confidence_def)

text \<open>The record with only a temperature class scores 10.\<close>

theorem confidence_bounds_witness:
  "0 \<le> confidence (empty_result (str ''T4'')\<lparr>tempClass := Some (str ''T4'')\<rparr>) \<and>
   confidence (empty_result (str ''T4'')\<lparr>tempClass := Some (str ''T4'')\<rparr>) \<le> 100 \<and>
   confidence (empty_result (str ''T4'')\<lparr>tempClass := Some (str ''T4'')\<rparr>) = 10"
  using confidence_bounds[of "empty_result (str ''T4'')\<lparr>tempClass := Some (str ''T4'')\<rparr>"]
  by (simp add: confidence_def weights_def empty_result_def str_def)

section \<open>Captures\<close>

lemma run_caps_mono:
  "s' \<in> set (run r s) \<Longrightarrow> caps s n \<noteq> None \<Longrightarrow> caps s' n \<noteq> None"
proof (induction r s arbitrary: s' rule: run.induct)
  case (1 P s)
  then show ?case by (cases "rest s") (auto simp: run.simps split: if_splits)
next
  case (3 a b s)
  then obtain s1 where s1: "s1 \<in> set (run a s)" and s': "s' \<in> set (run b s1)"
    by (auto simp: run.simps(3))
  from "3.IH"(1)[OF s1 "3.prems"(2)] have "caps s1 n \<noteq> None" .
  from "3.IH"(2)[OF s1 s' this] show ?case .
next
  case (5 g a s)
  from "5.prems"(1) consider "s' = s"
    | s1 where "s1 \<in> set (run a s)" "length (rest s1) < length (rest s)" "s' \<in> set (run (Star g a) s1)"
    by (subst (asm) run.simps) (auto simp: prio_def split: if_splits)
  then show ?case
  proof cases
    case 1
    with "5.prems"(2) show ?thesis by simp
  next
    case 2
    from "5.IH"(1)[OF 2(1) "5.prems"(2)] have "caps s1 n \<noteq> None" .
    from "5.IH"(2)[OF 2(1) 2(2) 2(3) this] show ?thesis .
  qed
next
  case (6 g k a s)
  show ?case
  proof (cases "k = 0")
    case True
    with "6.prems" show ?thesis by (simp add: run.simps(6))
  next
    case False
    with "6.prems"(1) consider "s' = s"
      | s1 where "s1 \<in> set (run a s)" "length (rest s1) < length (rest s)"
          "s' \<in> set (run (Upto g (k - 1) a) s1)"
      by (subst (asm) run.simps) (auto simp: prio_def split: if_splits)
    then show ?thesis
    proof cases
      case 1
      with "6.prems"(2) show ?thesis by simp
    next
      case 2
      from "6.IH"(1)[OF False 2(1) "6.prems"(2)] have "caps s1 n \<noteq> None" .
      from "6.IH"(2)[OF False 2(1) 2(2) 2(3) this] show ?thesis .
    qed
  qed
next
  case (7 k a s)
  then obtain s1 where s1: "s1 \<in> set (run a s)"
    and s': "s' = St (prev s1) (rest s1) ((caps s1)(k \<mapsto> take (length (rest s) - length (rest s1)) (rest s)))"
    by (auto simp: run.simps(7))
  from "7.IH"[OF s1 "7.prems"(2)] s' show ?case by simp
qed (auto simp: run.simps split: if_splits)

text \<open>A group that every path through the pattern passes: it stands in a sequence
  or in every branch of an alternation, outside repetitions and lookaheads.\<close>

fun sets_group :: "nat \<Rightarrow> rx \<Rightarrow> bool" where
  "sets_group n (Grp k a) = (n = k \<or> sets_group n a)"
| "sets_group n (Seq a b) = (sets_group n a \<or> sets_group n b)"
| "sets_group n (Alt a b) = (sets_group n a \<and> sets_group n b)"
| "sets_group n r = False"

lemma run_defines:
  "sets_group n r \<Longrightarrow> s' \<in> set (run r s) \<Longrightarrow> caps s' n \<noteq> None"
proof (induction r arbitrary: s s')
  case (Seq a b)
  from Seq.prems(2) obtain s1 where s1: "s1 \<in> set (run a s)" and s': "s' \<in> set (run b s1)"
    by (auto simp: run.simps(3))
  show ?case
  proof (cases "sets_group n b")
    case True
    from Seq.IH(2)[OF True s'] show ?thesis .
  next
    case False
    with Seq.prems(1) have "sets_group n a" by simp
    from Seq.IH(1)[OF this s1] have "caps s1 n \<noteq> None" .
    from run_caps_mono[OF s' this] show ?thesis .
  qed
next
  case (Alt a b)
  then show ?case by (auto simp: run.simps(4))
next
  case (Grp k a)
  from Grp.prems(2) obtain s1 where s1: "s1 \<in> set (run a s)"
    and s': "s' = St (prev s1) (rest s1) ((caps s1)(k \<mapsto> take (length (rest s) - length (rest s1)) (rest s)))"
    by (auto simp: run.simps(7))
  show ?case
  proof (cases "n = k")
    case True
    with s' show ?thesis by simp
  next
    case False
    with Grp.prems(1) have "sets_group n a" by simp
    from Grp.IH[OF this s1] s' show ?thesis by simp
  qed
qed simp_all

lemma exec_at_run: "exec_at r p t = Some s \<Longrightarrow> s \<in> set (run r (St p t (\<lambda>n. None)))"
  by (auto simp: exec_at_def split: list.splits)

lemma search_exec:
  "search r p t = Some (b, w, s) \<Longrightarrow> \<exists>p'. exec_at r p' (w @ rest s) = Some s"
proof (induction r p t arbitrary: b w s rule: search.induct)
  case (1 r p)
  then have e: "exec_at r p [] = Some s" "w = []" by (auto split: option.splits)
  from exec_at_suffix[OF e(1)] have "rest s = []" by simp
  with e show ?case by auto
next
  case (2 r p c cs)
  show ?case
  proof (cases "exec_at r p (c # cs)")
    case None
    with "2.prems" obtain b' where "search r (Some c) cs = Some (b', w, s)"
      by (auto split: option.splits)
    from "2.IH"[OF None this] show ?thesis .
  next
    case (Some s0)
    with "2.prems" have eq: "s = s0" "w = take (length (c # cs) - length (rest s)) (c # cs)" by auto
    from exec_at_suffix[OF Some] obtain pre where pre: "c # cs = pre @ rest s0" by blast
    with eq have "w = pre" by simp
    with pre eq Some have "exec_at r p (w @ rest s) = Some s" by simp
    then show ?thesis by blast
  qed
qed

lemma js_match_group:
  assumes "js_match r t = Some m" and "sets_group n r"
  shows "\<exists>v. m_groups m n = Some v"
proof -
  from assms(1) obtain b w s where s: "search r None t = Some (b, w, s)" and m: "m = RMatch w (caps s)"
    by (auto simp: js_match_def split: option.splits)
  from search_exec[OF s] obtain p' where "exec_at r p' (w @ rest s) = Some s" by blast
  from run_defines[OF assms(2) exec_at_run[OF this]] m show ?thesis by auto
qed

lemma sets_group_rx_seq: "sets_group n (rx_seq rs) = (\<exists>r \<in> set rs. sets_group n r)"
  by (induction rs rule: rx_seq.induct) auto

lemma sets_group_rx_alt: "sets_group n (rx_alt rs) = (rs \<noteq> [] \<and> (\<forall>r \<in> set rs. sets_group n r))"
  by (induction rs rule: rx_alt.induct) auto

lemma sets_group_rx_times: "sets_group n (rx_times k a b) = ((k \<noteq> 0 \<and> sets_group n a) \<or> sets_group n b)"
  by (induction k a b rule: rx_times.induct) (subst rx_times.simps, auto)

lemma sets_group_lits [simp]: "\<not> sets_group n (lit s)" "\<not> sets_group n (liti s)"
  by (simp_all add: lit_def liti_def sets_group_rx_seq)

lemma sets_group_derived [simp]:
  "\<not> sets_group n (rx_star a)" "\<not> sets_group n (rx_lazy_star a)" "\<not> sets_group n (rx_opt a)"
  "sets_group n (rx_plus a) = sets_group n a"
  "sets_group n (rx_rep k m a) = (k \<noteq> 0 \<and> sets_group n a)"
  "sets_group n (rx_rep_lazy k m a) = (k \<noteq> 0 \<and> sets_group n a)"
  "sets_group n (rx_exactly k a) = (k \<noteq> 0 \<and> sets_group n a)"
  "sets_group n (rx_at_least k a) = (k \<noteq> 0 \<and> sets_group n a)"
  "\<not> sets_group n ws" "\<not> sets_group n digit" "\<not> sets_group n colon_ws" "\<not> sets_group n newline"
  "\<not> sets_group n not_newline" "\<not> sets_group n degree"
  by (simp_all add: rx_star_def rx_lazy_star_def rx_opt_def rx_plus_def rx_rep_def rx_rep_lazy_def
      rx_exactly_def rx_at_least_def ws_def digit_def colon_ws_def newline_def not_newline_def
      degree_def sets_group_rx_times)

lemma sets_group_values [simp]:
  "sets_group (Suc 0) (value_next_line k)" "sets_group (Suc 0) (value_same_line k)"
  "sets_group (Suc 0) date_iso" "sets_group (Suc 0) date_dmy"
  by (simp_all add: value_next_line_def value_same_line_def date_iso_def date_dmy_def sets_group_rx_seq)

lemma sets_group_patterns:
  "sets_group 1 rx_protMatch" "sets_group 1 rx_gasFromMarking" "sets_group 1 rx_gasFromText"
  "sets_group 1 rx_spec"
  "\<forall>r \<in> set mfrPatterns. sets_group 1 r" "\<forall>r \<in> set eqPatterns. sets_group 1 r"
  "\<forall>r \<in> set issuePats. sets_group 1 r" "\<forall>r \<in> set expiryPats. sets_group 1 r"
  by (simp_all add: rx_protMatch_def rx_gasFromMarking_def rx_gasFromText_def rx_spec_def
      mfrPatterns_def eqPatterns_def issuePats_def expiryPats_def sets_group_rx_seq)

lemma sets_group_patterns2:
  "sets_group 1 rx_temp" "sets_group 1 rx_epl" "sets_group 1 rx_zone" "sets_group 1 rx_ip"
  "sets_group 1 rx_amb" "sets_group 3 rx_amb" "sets_group 1 rx_catII" "sets_group 1 rx_catLabel"
  "sets_group 1 rx_grp" "sets_group 1 rx_grpAlt"
  by (simp_all add: rx_temp_def rx_epl_def rx_zone_def rx_ip_def rx_amb_def rx_catII_def
      rx_catLabel_def rx_grp_def rx_grpAlt_def sets_group_rx_seq)

section \<open>parse never throws\<close>

lemma method_on_group:
  "js_match r t = Some m \<Longrightarrow> sets_group n r \<Longrightarrow> \<exists>g. method_on (m_groups m n) = Inr g"
  using js_match_group[of r t m n] by auto

lemma labelled_value_total:
  "\<forall>r \<in> set pats. sets_group 1 r \<Longrightarrow> \<exists>v. labelled_value deny pats t = Inr v"
proof (induction pats)
  case Nil
  then show ?case by simp
next
  case (Cons pat pats)
  then obtain v where v: "labelled_value deny pats t = Inr v" by auto
  show ?case
  proof (cases "js_match pat t")
    case None
    with v show ?thesis by simp
  next
    case (Some m)
    from Cons.prems have "sets_group 1 pat" by simp
    from method_on_group[OF Some this] obtain g where "method_on (m_groups m 1) = Inr g" by blast
    with Some v show ?thesis by (simp add: Let_def)
  qed
qed

lemma first_date_total:
  "\<forall>r \<in> set pats. sets_group 1 r \<Longrightarrow> \<exists>v. first_date pats t = Inr v"
proof (induction pats)
  case Nil
  then show ?case by simp
next
  case (Cons pat pats)
  then obtain v where v: "first_date pats t = Inr v" by auto
  show ?case
  proof (cases "js_match pat t")
    case None
    with v show ?thesis by simp
  next
    case (Some m)
    from Cons.prems have "sets_group 1 pat" by simp
    from method_on_group[OF Some this] obtain g where "method_on (m_groups m 1) = Inr g" by blast
    with Some show ?thesis by simp
  qed
qed

definition never_throws :: "(result \<Rightarrow> error + result) \<Rightarrow> bool" where
  "never_throws f = (\<forall>r. \<exists>r'. f r = Inr r')"

lemma run_steps_total: "list_all never_throws fs \<Longrightarrow> \<exists>r'. run_steps fs r = Inr r'"
proof (induction fs arbitrary: r)
  case Nil
  then show ?case by simp
next
  case (Cons f fs)
  then obtain r1 where "f r = Inr r1" by (auto simp: never_throws_def)
  moreover from Cons obtain r2 where "run_steps fs r1 = Inr r2" by auto
  ultimately show ?case by simp
qed

lemma never_throws_no_throw [simp]: "never_throws (no_throw f)"
  by (simp add: never_throws_def no_throw_def)

lemma never_throws_protectionTypes: "never_throws (parse_protectionTypes t)"
  unfolding never_throws_def parse_protectionTypes_def Let_def
  using method_on_group[OF _ sets_group_patterns(1)]
  by (auto split: option.splits sum.splits) (metis sum.distinct(1))

lemma never_throws_gasGroup: "never_throws (parse_gasGroup t)"
  unfolding never_throws_def parse_gasGroup_def Let_def
  using method_on_group[OF _ sets_group_patterns(2)] method_on_group[OF _ sets_group_patterns(3)]
  by (auto split: option.splits sum.splits) (metis sum.distinct(1))+

lemma never_throws_manufacturer: "never_throws (parse_manufacturer t)"
  unfolding never_throws_def parse_manufacturer_def
  using labelled_value_total[OF sets_group_patterns(5), of rx_mfrDeny t]
  by (auto split: option.splits sum.splits)

lemma never_throws_equipment: "never_throws (parse_equipment t)"
  unfolding never_throws_def parse_equipment_def
  using labelled_value_total[OF sets_group_patterns(6), of rx_eqDeny t]
  by (auto split: option.splits sum.splits)

lemma never_throws_issueDate: "never_throws (parse_issueDate t)"
  unfolding never_throws_def parse_issueDate_def
  using first_date_total[OF sets_group_patterns(7), of t]
  by (auto split: option.splits sum.splits)

lemma never_throws_expiryDate: "never_throws (parse_expiryDate t)"
  unfolding never_throws_def parse_expiryDate_def
  using first_date_total[OF sets_group_patterns(8), of t]
  by (auto split: option.splits sum.splits)

lemma never_throws_specialConditions: "never_throws (parse_specialConditions t)"
  unfolding never_throws_def parse_specialConditions_def
  using method_on_group[OF _ sets_group_patterns(4)]
  by (auto split: option.splits sum.splits) (metis sum.distinct(1))

lemma parse_total: "\<exists>r. parse t = Inr r"
  unfolding parse_def sections_def
  by (rule run_steps_total)
     (simp add: never_throws_protectionTypes never_throws_gasGroup never_throws_manufacturer
        never_throws_equipment never_throws_issueDate never_throws_expiryDate
        never_throws_specialConditions)

section \<open>What each section assigns\<close>

text \<open>A section keeps \<open>f\<close> when \<open>f\<close> of the record is the same after it. Each section
  assigns only its own fields, so it keeps everything that does not read them.\<close>

definition keeps :: "(result \<Rightarrow> 'a) \<Rightarrow> (result \<Rightarrow> error + result) \<Rightarrow> bool" where
  "keeps f step = (\<forall>r r'. step r = Inr r' \<longrightarrow> f r' = f r)"

lemma run_steps_keeps:
  "list_all (keeps f) fs \<Longrightarrow> run_steps fs r = Inr r' \<Longrightarrow> f r' = f r"
proof (induction fs arbitrary: r)
  case Nil
  then show ?case by simp
next
  case (Cons step fs)
  from Cons.prems(2) obtain r1 where r1: "step r = Inr r1" and rest: "run_steps fs r1 = Inr r'"
    by (cases "step r") auto
  from Cons.prems(1) r1 have "f r1 = f r" by (simp add: keeps_def)
  moreover from Cons.IH[OF _ rest] Cons.prems(1) have "f r' = f r1" by simp
  ultimately show ?case by simp
qed

lemma keeps_certNumber:
  "(\<And>r a b. f (r\<lparr>certNumber := a, certType := b\<rparr>) = f r) \<Longrightarrow> (\<And>r b. f (r\<lparr>certType := b\<rparr>) = f r)
    \<Longrightarrow> keeps f (no_throw (parse_certNumber t))"
  by (simp add: keeps_def no_throw_def parse_certNumber_def cert_dual_def cert_ukca_def cert_atex_def
      cert_iecex_def split: option.splits)

lemma keeps_marking:
  "(\<And>r a b. f (r\<lparr>marking := a, markings := b\<rparr>) = f r) \<Longrightarrow> keeps f (no_throw (parse_marking t))"
  by (simp add: keeps_def no_throw_def parse_marking_def Let_def split: list.splits)

lemma keeps_protectionTypes:
  "(\<And>r a. f (r\<lparr>protectionTypes := a\<rparr>) = f r) \<Longrightarrow> keeps f (parse_protectionTypes t)"
  by (auto simp: keeps_def parse_protectionTypes_def Let_def split: option.splits sum.splits)

lemma keeps_gasGroup:
  "(\<And>r a b. f (r\<lparr>gasGroup := a, gasGroupInfo := b\<rparr>) = f r) \<Longrightarrow> keeps f (parse_gasGroup t)"
  by (auto simp: keeps_def parse_gasGroup_def Let_def split: option.splits sum.splits)

lemma keeps_tempClass:
  "(\<And>r a b. f (r\<lparr>tempClass := a, tempClassMax := b\<rparr>) = f r) \<Longrightarrow> keeps f (no_throw (parse_tempClass t))"
  by (simp add: keeps_def no_throw_def parse_tempClass_def Let_def split: option.splits)

lemma keeps_epl:
  "(\<And>r a. f (r\<lparr>epl := a\<rparr>) = f r) \<Longrightarrow> keeps f (no_throw (parse_epl t))"
  by (simp add: keeps_def no_throw_def parse_epl_def Let_def split: option.splits)

lemma keeps_zone:
  "(\<And>r a. f (r\<lparr>zone := a\<rparr>) = f r) \<Longrightarrow> keeps f (no_throw (parse_zone t))"
  by (simp add: keeps_def no_throw_def parse_zone_def Let_def split: option.splits)

lemma keeps_ipRating:
  "(\<And>r a. f (r\<lparr>ipRating := a\<rparr>) = f r) \<Longrightarrow> keeps f (no_throw (parse_ipRating t))"
  by (simp add: keeps_def no_throw_def parse_ipRating_def split: option.splits)

lemma keeps_ambientTemp:
  "(\<And>r a. f (r\<lparr>ambientTemp := a\<rparr>) = f r) \<Longrightarrow> keeps f (no_throw (parse_ambientTemp t))"
  by (simp add: keeps_def no_throw_def parse_ambientTemp_def split: option.splits)

lemma keeps_manufacturer:
  "(\<And>r a. f (r\<lparr>manufacturer := a\<rparr>) = f r) \<Longrightarrow> keeps f (parse_manufacturer t)"
  by (auto simp: keeps_def parse_manufacturer_def split: option.splits sum.splits)

lemma keeps_equipment:
  "(\<And>r a. f (r\<lparr>equipment := a\<rparr>) = f r) \<Longrightarrow> keeps f (parse_equipment t)"
  by (auto simp: keeps_def parse_equipment_def split: option.splits sum.splits)

lemma keeps_notifiedBody:
  "(\<And>r a. f (r\<lparr>notifiedBody := a\<rparr>) = f r) \<Longrightarrow> keeps f (no_throw (parse_notifiedBody t))"
  by (simp add: keeps_def no_throw_def parse_notifiedBody_def split: option.splits)

lemma keeps_issueDate:
  "(\<And>r a. f (r\<lparr>issueDate := a\<rparr>) = f r) \<Longrightarrow> keeps f (parse_issueDate t)"
  by (auto simp: keeps_def parse_issueDate_def split: option.splits sum.splits)

lemma keeps_expiryDate:
  "(\<And>r a. f (r\<lparr>expiryDate := a\<rparr>) = f r) \<Longrightarrow> keeps f (parse_expiryDate t)"
  by (auto simp: keeps_def parse_expiryDate_def split: option.splits sum.splits)

lemma keeps_specialConditions:
  "(\<And>r a. f (r\<lparr>specialConditions := a\<rparr>) = f r) \<Longrightarrow> keeps f (parse_specialConditions t)"
  by (auto simp: keeps_def parse_specialConditions_def split: option.splits sum.splits)

lemma keeps_standard:
  "(\<And>r a. f (r\<lparr>standard := a\<rparr>) = f r) \<Longrightarrow> keeps f (no_throw (parse_standard t))"
  by (simp add: keeps_def no_throw_def parse_standard_def Let_def)

lemma keeps_category:
  "(\<And>r a. f (r\<lparr>category := a\<rparr>) = f r) \<Longrightarrow> keeps f (no_throw (parse_category t))"
  by (simp add: keeps_def no_throw_def parse_category_def split: option.splits)

lemma keeps_group:
  "(\<And>r a. f (r\<lparr>group' := a\<rparr>) = f r) \<Longrightarrow> keeps f (no_throw (parse_group t))"
  by (simp add: keeps_def no_throw_def parse_group_def split: option.splits)

lemmas keeps_intros = keeps_certNumber keeps_marking keeps_protectionTypes keeps_gasGroup
  keeps_tempClass keeps_epl keeps_zone keeps_ipRating keeps_ambientTemp keeps_manufacturer
  keeps_equipment keeps_notifiedBody keeps_issueDate keeps_expiryDate keeps_specialConditions
  keeps_standard keeps_category keeps_group

lemma run_steps_append:
  "run_steps (xs @ ys) r = Inr r'' \<longleftrightarrow> (\<exists>r'. run_steps xs r = Inr r' \<and> run_steps ys r' = Inr r'')"
  by (induction xs arbitrary: r) (auto split: sum.splits)

lemma parse_split:
  assumes "parse t = Inr r"
  shows "\<exists>r'. run_steps (take k (sections t)) (empty_result t) = Inr r' \<and>
              run_steps (drop k (sections t)) r' = Inr r"
proof -
  from assms have "run_steps (take k (sections t) @ drop k (sections t)) (empty_result t) = Inr r"
    by (simp add: parse_def)
  then show ?thesis by (simp only: run_steps_append)
qed

text \<open>The certificate fields are those of the first section.\<close>

lemma parse_cert_fields:
  assumes "parse t = Inr r"
  shows "certNumber r = certNumber (parse_certNumber t (empty_result t))"
    and "certType r = certType (parse_certNumber t (empty_result t))"
proof -
  let ?f = "\<lambda>r. (certNumber r, certType r)"
  from parse_split[OF assms, of 1] obtain r' where
    r': "run_steps (take 1 (sections t)) (empty_result t) = Inr r'"
    and rest: "run_steps (drop 1 (sections t)) r' = Inr r" by blast
  from r' have r'_eq: "r' = parse_certNumber t (empty_result t)"
    by (simp add: sections_def no_throw_def)
  have "list_all (keeps ?f) (drop 1 (sections t))"
    by (simp add: sections_def keeps_intros)
  from run_steps_keeps[OF this rest] r'_eq
  show "certNumber r = certNumber (parse_certNumber t (empty_result t))"
    and "certType r = certType (parse_certNumber t (empty_result t))" by simp_all
qed

section \<open>The first unit of a match\<close>

text \<open>A pattern that starts with a class: every match begins with a unit of the class.\<close>

fun starts_with :: "(cu \<Rightarrow> bool) \<Rightarrow> rx \<Rightarrow> bool" where
  "starts_with P (Chr Q) = (\<forall>c. Q c \<longrightarrow> P c)"
| "starts_with P (Seq a b) = starts_with P a"
| "starts_with P (Alt a b) = (starts_with P a \<and> starts_with P b)"
| "starts_with P (Grp n a) = starts_with P a"
| "starts_with P r = False"

lemma run_starts_with:
  "starts_with P r \<Longrightarrow> s' \<in> set (run r s) \<Longrightarrow>
     \<exists>c cs. rest s = c # cs \<and> P c \<and> length (rest s') \<le> length cs"
proof (induction r arbitrary: s s')
  case (Chr Q)
  then show ?case by (cases "rest s") (auto simp: run.simps split: if_splits)
next
  case (Seq a b)
  from Seq.prems(2) obtain s1 where s1: "s1 \<in> set (run a s)" and s': "s' \<in> set (run b s1)"
    by (auto simp: run.simps(3))
  from Seq.prems(1) have "starts_with P a" by simp
  from Seq.IH(1)[OF this s1] obtain c cs where "rest s = c # cs" "P c" "length (rest s1) \<le> length cs"
    by blast
  moreover from run_length[OF s'] have "length (rest s') \<le> length (rest s1)" .
  ultimately show ?case by auto
next
  case (Alt a b)
  then show ?case by (auto simp: run.simps(4))
next
  case (Grp n a)
  from Grp.prems(2) obtain s1 where s1: "s1 \<in> set (run a s)" and "rest s' = rest s1"
    by (auto simp: run.simps(7))
  with Grp.IH[OF _ s1] Grp.prems(1) show ?case by simp
qed simp_all

lemma js_match_starts_with:
  assumes "js_match r t = Some m" and "starts_with P r"
  shows "\<exists>c cs. m_whole m = c # cs \<and> P c"
proof -
  from assms(1) obtain b w s where s: "search r None t = Some (b, w, s)" and m: "m = RMatch w (caps s)"
    by (auto simp: js_match_def split: option.splits)
  from search_exec[OF s] obtain p' where "exec_at r p' (w @ rest s) = Some s" by blast
  from run_starts_with[OF assms(2) exec_at_run[OF this]]
  obtain c cs where "w @ rest s = c # cs" "P c" "length (rest s) \<le> length cs" by auto
  then have "\<exists>w'. w = c # w'" by (cases w) auto
  with \<open>P c\<close> m show ?thesis by auto
qed

lemma starts_with_rx_seq: "starts_with P r \<Longrightarrow> starts_with P (rx_seq (r # rs))"
  by (cases rs) simp_all

lemma starts_with_liti:
  "\<forall>x. ci (\<lambda>x. x = of_char c) x \<longrightarrow> P x \<Longrightarrow> starts_with P (liti (c # cs))"
  by (cases cs) (simp_all add: liti_def)

lemma starts_with_rx_times: "0 < n \<Longrightarrow> starts_with P a \<Longrightarrow> starts_with P (rx_times n a k)"
  by (subst rx_times.simps) simp

lemma not_space_letter: "ci (\<lambda>x. x = of_char c) x \<Longrightarrow> is_upper (of_char c) \<Longrightarrow> \<not> is_space x"
  by (auto simp: ci_def ascii_upper_def ascii_lower_def is_upper_def is_space_def split: if_splits)

lemma not_space_ci_upper: "ci is_upper x \<Longrightarrow> \<not> is_space x"
  by (auto simp: ci_def ascii_upper_def ascii_lower_def is_upper_def is_space_def split: if_splits)

lemma starts_with_cert:
  "starts_with (\<lambda>c. \<not> is_space c) rx_iecex"
  "starts_with (\<lambda>c. \<not> is_space c) rx_atex"
  "starts_with (\<lambda>c. \<not> is_space c) rx_ukca"
proof -
  show "starts_with (\<lambda>c. \<not> is_space c) rx_iecex"
    unfolding rx_iecex_def
    by (intro starts_with_rx_seq starts_with_liti allI impI) (erule not_space_letter, simp add: is_upper_def)
  show "starts_with (\<lambda>c. \<not> is_space c) rx_atex"
    unfolding rx_atex_def rx_rep_def
    by (intro starts_with_rx_seq starts_with_rx_times) (simp_all add: not_space_ci_upper)
  show "starts_with (\<lambda>c. \<not> is_space c) rx_ukca"
    unfolding rx_ukca_def
    by (intro starts_with_rx_seq starts_with_liti allI impI) (erule not_space_letter, simp add: is_upper_def)
qed

section \<open>Cleaning a match\<close>

lemma in_dropWhile: "x \<in> set xs \<Longrightarrow> \<not> P x \<Longrightarrow> x \<in> set (dropWhile P xs)"
  by (induction xs) auto

lemma trim_nonempty: "x \<in> set s \<Longrightarrow> \<not> is_space x \<Longrightarrow> trim s \<noteq> []"
proof -
  assume x: "x \<in> set s" "\<not> is_space x"
  then have "x \<in> set (dropWhile is_space s)" by (simp add: in_dropWhile)
  with x(2) show ?thesis by (auto simp: trim_def)
qed

lemma clean_nonempty:
  assumes "\<not> is_space c"
  shows "trim (collapse_ws (c # cs)) \<noteq> []" and "trim (remove_ws (c # cs)) \<noteq> []"
    and "trim (c # cs) \<noteq> []" and "collapse_ws (trim (c # cs)) \<noteq> []"
proof -
  from assms show "trim (collapse_ws (c # cs)) \<noteq> []" by (intro trim_nonempty[of c]) simp_all
  from assms show "trim (remove_ws (c # cs)) \<noteq> []" by (intro trim_nonempty[of c]) (simp_all add: remove_ws_def)
  from assms show t: "trim (c # cs) \<noteq> []" by (intro trim_nonempty[of c]) simp_all
  then show "collapse_ws (trim (c # cs)) \<noteq> []" by (cases "trim (c # cs)") auto
qed

section \<open>Certificate number and type\<close>

lemma cert_iecex_match:
  assumes "js_match rx_iecex t = Some m"
  shows "\<not> falsy (Some (trim (collapse_ws (m_whole m))))"
  using js_match_starts_with[OF assms starts_with_cert(1)] by (auto simp: clean_nonempty)

lemma cert_atex_match:
  assumes "js_match rx_atex t = Some m"
  shows "\<not> falsy (Some (trim (remove_ws (m_whole m))))"
  using js_match_starts_with[OF assms starts_with_cert(2)] by (auto simp: clean_nonempty)

lemma parse_certNumber_cases:
  "parse_certNumber t (empty_result t) =
    (case js_match rx_iecex t of
       Some m \<Rightarrow> (empty_result t)\<lparr>certNumber := Some (trim (collapse_ws (m_whole m))),
                  certType := Some (if js_match rx_atexAlso t = None then str ''IECEx'' else str ''IECEx + ATEX'')\<rparr>
     | None \<Rightarrow>
        (case js_match rx_atex t of
           Some m \<Rightarrow> (empty_result t)\<lparr>certNumber := Some (trim (remove_ws (m_whole m))),
                      certType := Some (str ''ATEX'')\<rparr>
         | None \<Rightarrow>
            (case js_match rx_ukca t of
               Some m \<Rightarrow> (empty_result t)\<lparr>certNumber := Some (trim (m_whole m)), certType := Some (str ''UKCA'')\<rparr>
             | None \<Rightarrow> empty_result t)))"
proof (cases "js_match rx_iecex t")
  case (Some m)
  from cert_iecex_match[OF Some] Some show ?thesis
    by (auto simp: parse_certNumber_def cert_dual_def cert_ukca_def cert_atex_def cert_iecex_def
        split: option.splits)
next
  case None
  note iecex = None
  show ?thesis
  proof (cases "js_match rx_atex t")
    case (Some m)
    from cert_atex_match[OF Some] Some iecex show ?thesis
      by (auto simp: parse_certNumber_def cert_dual_def cert_ukca_def cert_atex_def cert_iecex_def
          empty_result_def str_def)
  next
    case None
    with iecex show ?thesis
      by (auto simp: parse_certNumber_def cert_dual_def cert_ukca_def cert_atex_def cert_iecex_def
          empty_result_def str_def split: option.splits)
  qed
qed

text \<open>
  Claim C6. The certificate-number section tries the IECEx pattern, then the ATEX pattern,
  then the UKCA pattern; the first one that matches fixes both \<open>certNumber\<close> (the
  match with its whitespace normalised) and \<open>certType\<close>, and when the IECEx pattern
  matched and the text also has an ATEX-shaped part, \<open>certType\<close> becomes
  \<^verbatim>\<open>IECEx + ATEX\<close> with the same \<open>certNumber\<close>.
\<close>

theorem cert_number_order:
  assumes "parse t = Inr r"
  shows "(\<forall>m. js_match rx_iecex t = Some m \<longrightarrow>
            certNumber r = Some (trim (collapse_ws (m_whole m))) \<and>
            certType r = Some (if js_match rx_atexAlso t = None then str ''IECEx'' else str ''IECEx + ATEX''))
       \<and> (js_match rx_iecex t = None \<longrightarrow>
            (\<forall>m. js_match rx_atex t = Some m \<longrightarrow>
               certNumber r = Some (trim (remove_ws (m_whole m))) \<and> certType r = Some (str ''ATEX'')))
       \<and> (js_match rx_iecex t = None \<and> js_match rx_atex t = None \<longrightarrow>
            (\<forall>m. js_match rx_ukca t = Some m \<longrightarrow>
               certNumber r = Some (trim (m_whole m)) \<and> certType r = Some (str ''UKCA'')))
       \<and> (js_match rx_iecex t = None \<and> js_match rx_atex t = None \<and> js_match rx_ukca t = None \<longrightarrow>
            certNumber r = None \<and> certType r = None)"
  using parse_cert_fields[OF assms] unfolding parse_certNumber_cases
  by (auto simp: empty_result_def)

text \<open>
  Claim C10. \<open>certNumber\<close> is absent exactly when \<open>certType\<close> is absent.
\<close>

theorem cert_number_iff_type:
  assumes "parse t = Inr r"
  shows "certNumber r = None \<longleftrightarrow> certType r = None"
  using parse_cert_fields[OF assms] unfolding parse_certNumber_cases
  by (auto simp: empty_result_def split: option.splits)

section \<open>A field of the result\<close>

text \<open>The record before and after section \<open>k\<close>: what only section \<open>k\<close> assigns
  (\<open>f\<close>) is still as in the empty record before it and already final after it, and
  what no section from \<open>k\<close> on assigns (\<open>g\<close>) is already final before it.\<close>

lemma parse_at:
  assumes "parse t = Inr r" and "k < length (sections t)"
    and "list_all (keeps f) (take k (sections t))"
    and "list_all (keeps f) (drop (Suc k) (sections t))"
    and "list_all (keeps g) (drop k (sections t))"
  shows "\<exists>r0 r1. (sections t ! k) r0 = Inr r1 \<and> f r0 = f (empty_result t) \<and> f r1 = f r \<and> g r0 = g r"
proof -
  from parse_split[OF assms(1), of k] obtain r0 where
    r0: "run_steps (take k (sections t)) (empty_result t) = Inr r0"
    and rest: "run_steps (drop k (sections t)) r0 = Inr r" by blast
  from assms(2) have "drop k (sections t) = (sections t ! k) # drop (Suc k) (sections t)"
    by (simp add: Cons_nth_drop_Suc)
  with rest obtain r1 where r1: "(sections t ! k) r0 = Inr r1"
    and after: "run_steps (drop (Suc k) (sections t)) r1 = Inr r"
    by (cases "(sections t ! k) r0") auto
  from run_steps_keeps[OF assms(3) r0] have "f r0 = f (empty_result t)" .
  moreover from run_steps_keeps[OF assms(4) after] have "f r = f r1" .
  moreover from run_steps_keeps[OF assms(5) rest] have "g r = g r0" .
  ultimately show ?thesis using r1 by auto
qed

lemma parse_raw: "parse t = Inr r \<Longrightarrow> raw r = t"
proof -
  assume p: "parse t = Inr r"
  have "list_all (keeps raw) (sections t)" by (simp add: sections_def keeps_intros)
  from run_steps_keeps[OF this] p show ?thesis by (simp add: parse_def empty_result_def)
qed

section \<open>Zone\<close>

lemma zone_of_parse_zone:
  "zone (parse_zone t r0) =
     (case js_match rx_zone t of
        Some m \<Rightarrow> Some (str ''Zone '' @ js_to_string (m_groups m 1))
      | None \<Rightarrow>
          if falsy (epl r0) \<or> falsy (eplZoneMap (or_empty (epl r0))) then zone r0
          else Some (str ''Zone '' @ or_empty (eplZoneMap (or_empty (epl r0))) @ str '' (derived from EPL)''))"
  by (simp add: parse_zone_def Let_def split: option.splits)

lemma parse_zone_field:
  assumes "parse t = Inr r"
  shows "zone r =
     (case js_match rx_zone t of
        Some m \<Rightarrow> Some (str ''Zone '' @ js_to_string (m_groups m 1))
      | None \<Rightarrow>
          if falsy (epl r) \<or> falsy (eplZoneMap (or_empty (epl r))) then None
          else Some (str ''Zone '' @ or_empty (eplZoneMap (or_empty (epl r))) @ str '' (derived from EPL)''))"
proof -
  have "\<exists>r0 r1. (sections t ! 6) r0 = Inr r1 \<and> zone r0 = zone (empty_result t) \<and> zone r1 = zone r
      \<and> epl r0 = epl r"
    by (rule parse_at[OF assms]) (simp_all add: sections_def keeps_intros)
  then obtain r0 where "zone (parse_zone t r0) = zone r" "zone r0 = None" "epl r0 = epl r"
    by (auto simp: sections_def no_throw_def empty_result_def)
  then show ?thesis unfolding zone_of_parse_zone by (auto split: option.splits)
qed

text \<open>A pattern whose classes all lie in \<open>P\<close> consumes only units of \<open>P\<close>.\<close>

fun only_class :: "(cu \<Rightarrow> bool) \<Rightarrow> rx \<Rightarrow> bool" where
  "only_class P (Chr Q) = (\<forall>c. Q c \<longrightarrow> P c)"
| "only_class P (Seq a b) = (only_class P a \<and> only_class P b)"
| "only_class P (Alt a b) = (only_class P a \<and> only_class P b)"
| "only_class P (Star g a) = only_class P a"
| "only_class P (Upto g k a) = only_class P a"
| "only_class P (Grp n a) = only_class P a"
| "only_class P r = True"

lemma run_only_class:
  "s' \<in> set (run r s) \<Longrightarrow> only_class P r \<Longrightarrow> \<exists>pre. rest s = pre @ rest s' \<and> list_all P pre"
proof (induction r s arbitrary: s' rule: run.induct)
  case (1 Q s)
  then obtain c cs where "rest s = c # cs" "Q c" "s' = St (Some c) cs (caps s)"
    by (cases "rest s") (auto simp: run.simps split: if_splits)
  with "1.prems"(2) have "rest s = [c] @ rest s' \<and> list_all P [c]" by simp
  then show ?case by blast
next
  case (3 a b s)
  then obtain s1 where s1: "s1 \<in> set (run a s)" and s': "s' \<in> set (run b s1)"
    by (auto simp: run.simps(3))
  from "3.prems"(2) have oa: "only_class P a" and ob: "only_class P b" by simp_all
  from "3.IH"(1)[OF s1 oa] obtain p1 where "rest s = p1 @ rest s1" "list_all P p1" by blast
  moreover from "3.IH"(2)[OF s1 s' ob] obtain p2 where "rest s1 = p2 @ rest s'" "list_all P p2" by blast
  ultimately have "rest s = (p1 @ p2) @ rest s' \<and> list_all P (p1 @ p2)" by simp
  then show ?case by blast
next
  case (4 a b s)
  then show ?case by (auto simp: run.simps(4))
next
  case (5 g a s)
  from "5.prems"(1) consider "s' = s"
    | s1 where "s1 \<in> set (run a s)" "length (rest s1) < length (rest s)" "s' \<in> set (run (Star g a) s1)"
    by (subst (asm) run.simps) (auto simp: prio_def split: if_splits)
  then show ?case
  proof cases
    case 1
    then have "rest s = [] @ rest s' \<and> list_all P []" by simp
    then show ?thesis by blast
  next
    case 2
    from "5.prems"(2) have oa: "only_class P a" by simp
    from "5.IH"(1)[OF 2(1) oa] obtain p1 where "rest s = p1 @ rest s1" "list_all P p1" by blast
    moreover from "5.IH"(2)[OF 2(1) 2(2) 2(3) "5.prems"(2)]
    obtain p2 where "rest s1 = p2 @ rest s'" "list_all P p2" by blast
    ultimately have "rest s = (p1 @ p2) @ rest s' \<and> list_all P (p1 @ p2)" by simp
    then show ?thesis by blast
  qed
next
  case (6 g k a s)
  show ?case
  proof (cases "k = 0")
    case True
    with "6.prems" have "rest s = [] @ rest s' \<and> list_all P []" by (simp add: run.simps(6))
    then show ?thesis by blast
  next
    case False
    with "6.prems"(1) consider "s' = s"
      | s1 where "s1 \<in> set (run a s)" "length (rest s1) < length (rest s)"
          "s' \<in> set (run (Upto g (k - 1) a) s1)"
      by (subst (asm) run.simps) (auto simp: prio_def split: if_splits)
    then show ?thesis
    proof cases
      case 1
      then have "rest s = [] @ rest s' \<and> list_all P []" by simp
      then show ?thesis by blast
    next
      case 2
      from "6.prems"(2) have oa: "only_class P a" and ou: "only_class P (Upto g (k - 1) a)" by simp_all
      from "6.IH"(1)[OF False 2(1) oa] obtain p1 where "rest s = p1 @ rest s1" "list_all P p1" by blast
      moreover from "6.IH"(2)[OF False 2(1) 2(2) 2(3) ou]
      obtain p2 where "rest s1 = p2 @ rest s'" "list_all P p2" by blast
      ultimately have "rest s = (p1 @ p2) @ rest s' \<and> list_all P (p1 @ p2)" by simp
      then show ?thesis by blast
    qed
  qed
next
  case (7 n a s)
  then obtain s1 where s1: "s1 \<in> set (run a s)" and "rest s' = rest s1"
    by (auto simp: run.simps(7))
  with "7.IH"[OF s1] "7.prems"(2) show ?case by simp
qed (auto simp: run.simps split: if_splits)

text \<open>The group a pattern ends with holds what the group's pattern consumed.\<close>

lemma run_Grp_only_class:
  assumes "s' \<in> set (run (Grp n a) s)" and "only_class P a"
  shows "\<exists>d. caps s' n = Some d \<and> list_all P d"
proof -
  from assms(1) obtain s1 where s1: "s1 \<in> set (run a s)"
    and s': "s' = St (prev s1) (rest s1) ((caps s1)(n \<mapsto> take (length (rest s) - length (rest s1)) (rest s)))"
    by (auto simp: run.simps(7))
  from run_only_class[OF s1 assms(2)] obtain pre where "rest s = pre @ rest s1" "list_all P pre" by blast
  with s' show ?thesis by simp
qed

lemma run_Seq_last: "s' \<in> set (run (Seq a b) s) \<Longrightarrow> \<exists>s1. s' \<in> set (run b s1)"
  by (auto simp: run.simps(3))

lemma only_class_rx_times: "only_class P a \<Longrightarrow> only_class P k \<Longrightarrow> only_class P (rx_times n a k)"
  by (induction n a k rule: rx_times.induct) (subst rx_times.simps, simp)

lemma rx_zone_group:
  assumes "js_match rx_zone t = Some m"
  shows "\<exists>d. m_groups m 1 = Some d \<and> list_all is_digit d"
proof -
  from assms obtain b w s where s: "search rx_zone None t = Some (b, w, s)" and m: "m = RMatch w (caps s)"
    by (auto simp: js_match_def split: option.splits)
  from search_exec[OF s] obtain p' where "exec_at rx_zone p' (w @ rest s) = Some s" by blast
  from exec_at_run[OF this] have "s \<in> set (run rx_zone (St p' (w @ rest s) (\<lambda>n. None)))" .
  then obtain s2 where "s \<in> set (run (Grp 1 (rx_rep 1 2 digit)) s2)"
    unfolding rx_zone_def by (auto dest!: run_Seq_last)
  moreover have "only_class is_digit (rx_rep 1 2 digit)"
    by (simp add: rx_rep_def digit_def only_class_rx_times)
  ultimately obtain d where "caps s 1 = Some d" "list_all is_digit d"
    using run_Grp_only_class by blast
  with m show ?thesis by simp
qed

lemma zone_not_derived:
  assumes "list_all is_digit d"
  shows "\<not> suffix (str '' (derived from EPL)'') (str ''Zone '' @ d)"
proof
  assume "suffix (str '' (derived from EPL)'') (str ''Zone '' @ d)"
  then have "set (str '' (derived from EPL)'') \<subseteq> set (str ''Zone '' @ d)" by (rule set_mono_suffix)
  moreover have "41 \<in> set (str '' (derived from EPL)'')" by (simp add: str_def)
  ultimately have "41 \<in> set (str ''Zone '' @ d)" by blast
  with assms show False by (auto simp: str_def list_all_iff is_digit_def)
qed

lemma eplZoneMap_values: "eplZoneMap e = Some z \<Longrightarrow> e \<noteq> [] \<and> z \<noteq> []"
  by (auto simp: eplZoneMap_def str_def split: if_splits)

text \<open>
  Claim C4. When the pattern \<^verbatim>\<open>/Zone\s+(\d{1,2})/i\<close> matches, \<open>zone\<close> is
  \<^verbatim>\<open>Zone\<close> and the matched digits, which never ends with the marker
  \<^verbatim>\<open>(derived from EPL)\<close>. Only when it does not match and \<open>epl\<close> is present is
  \<open>zone\<close> derived: \<open>epl\<close> is looked up in the EPL-to-zone table and the marker is
  appended (an \<open>epl\<close> outside the table leaves \<open>zone\<close> absent). In particular, with
  \<open>epl\<close> \<^verbatim>\<open>Gb\<close> and no match of the zone pattern, \<open>zone\<close> is
  \<^verbatim>\<open>Zone 1 (derived from EPL)\<close>.
\<close>

theorem zone_explicit_or_derived:
  assumes "parse t = Inr r"
  shows "(\<forall>m. js_match rx_zone t = Some m \<longrightarrow>
            (\<exists>d. m_groups m 1 = Some d \<and> zone r = Some (str ''Zone '' @ d) \<and>
                  \<not> suffix (str '' (derived from EPL)'') (str ''Zone '' @ d)))
       \<and> (js_match rx_zone t = None \<longrightarrow>
            zone r = (case epl r of
                        None \<Rightarrow> None
                      | Some e \<Rightarrow> (case eplZoneMap e of
                                     None \<Rightarrow> None
                                   | Some z \<Rightarrow> Some (str ''Zone '' @ z @ str '' (derived from EPL)''))))
       \<and> (js_match rx_zone t = None \<and> epl r = Some (str ''Gb'') \<longrightarrow>
            zone r = Some (str ''Zone 1 (derived from EPL)''))"
proof (intro conjI allI impI)
  fix m assume m: "js_match rx_zone t = Some m"
  from rx_zone_group[OF m] obtain d where d: "m_groups m 1 = Some d" "list_all is_digit d" by blast
  with parse_zone_field[OF assms] m zone_not_derived[OF d(2)]
  show "\<exists>d. m_groups m 1 = Some d \<and> zone r = Some (str ''Zone '' @ d) \<and>
            \<not> suffix (str '' (derived from EPL)'') (str ''Zone '' @ d)" by simp
next
  assume n: "js_match rx_zone t = None"
  show "zone r = (case epl r of
                        None \<Rightarrow> None
                      | Some e \<Rightarrow> (case eplZoneMap e of
                                     None \<Rightarrow> None
                                   | Some z \<Rightarrow> Some (str ''Zone '' @ z @ str '' (derived from EPL)'')))"
    using parse_zone_field[OF assms] n eplZoneMap_values
    by (cases "epl r") (auto split: option.splits)
next
  assume "js_match rx_zone t = None \<and> epl r = Some (str ''Gb'')"
  with parse_zone_field[OF assms] show "zone r = Some (str ''Zone 1 (derived from EPL)'')"
    by (simp add: eplZoneMap_def str_def)
qed

section \<open>Notified body\<close>

lemma sorted_longest_first:
  "sorted_wrt (\<lambda>a b. length b \<le> length a) (sort_longest_first xs)"
proof -
  have "sorted (map (\<lambda>s. - int (length s)) (sort_key (\<lambda>s. - int (length s)) xs))"
    by (rule sorted_sort_key)
  then show ?thesis by (simp add: sort_longest_first_def sorted_map)
qed

lemma set_sort_longest_first [simp]: "set (sort_longest_first xs) = set xs"
  by (simp add: sort_longest_first_def)

lemma distinct_sort_longest_first [simp]: "distinct (sort_longest_first xs) = distinct xs"
  by (simp add: sort_longest_first_def)

lemma find_longest:
  assumes "sorted_wrt (\<lambda>a b. length b \<le> length a) xs" and "find P xs = Some x"
  shows "\<forall>y \<in> set xs. P y \<longrightarrow> length y \<le> length x"
  using assms
proof (induction xs)
  case Nil
  then show ?case by simp
next
  case (Cons a xs)
  show ?case
  proof (cases "P a")
    case True
    with Cons.prems show ?thesis by auto
  next
    case False
    with Cons.prems Cons.IH show ?thesis by auto
  qed
qed

lemma find_SomeD: "find P xs = Some x \<Longrightarrow> x \<in> set xs \<and> P x"
  by (induction xs) (auto split: if_splits)

lemma keeps_unit: "keeps (\<lambda>r. ()) step"
  by (simp add: keeps_def)

lemma parse_notifiedBody_field:
  assumes "parse t = Inr r"
  shows "notifiedBody r = find (js_includes t) sortedBodies"
proof -
  have "\<exists>r0 r1. (sections t ! 11) r0 = Inr r1 \<and> notifiedBody r0 = notifiedBody (empty_result t)
      \<and> notifiedBody r1 = notifiedBody r \<and> () = ()"
    by (rule parse_at[OF assms, where g = "\<lambda>r. ()"]) (simp_all add: sections_def keeps_intros keeps_unit)
  then obtain r0 where "notifiedBody (parse_notifiedBody t r0) = notifiedBody r" "notifiedBody r0 = None"
    by (auto simp: sections_def no_throw_def empty_result_def)
  then show ?thesis by (auto simp: parse_notifiedBody_def split: option.splits)
qed

text \<open>
  Claim C3, as amended. The known body names are scanned longest first, so
  \<open>notifiedBody\<close> is a known name of the greatest length among those the text contains
  (absent when it contains none). Hence, when the text contains two known names of which
  one is shorter, \<open>notifiedBody\<close> is never the shorter one; it is the longer one unless
  the text contains a third known name that is at least as long.
\<close>

theorem notified_body_longest:
  assumes "parse t = Inr r"
  shows "(\<forall>a \<in> set CERT_BODIES. \<forall>b \<in> set CERT_BODIES.
            js_includes t a \<and> js_includes t b \<and> length a < length b \<longrightarrow> notifiedBody r \<noteq> Some a)
       \<and> ((\<exists>b \<in> set CERT_BODIES. js_includes t b) \<longrightarrow>
            (\<exists>c \<in> set CERT_BODIES. notifiedBody r = Some c \<and> js_includes t c \<and>
               (\<forall>d \<in> set CERT_BODIES. js_includes t d \<longrightarrow> length d \<le> length c)))
       \<and> ((\<forall>b \<in> set CERT_BODIES. \<not> js_includes t b) \<longrightarrow> notifiedBody r = None)"
proof -
  note nb = parse_notifiedBody_field[OF assms]
  have sorted: "sorted_wrt (\<lambda>a b. length b \<le> length a) sortedBodies"
    and set: "set sortedBodies = set CERT_BODIES"
    by (simp_all add: sortedBodies_def sorted_longest_first)
  have longest: "\<forall>d \<in> set CERT_BODIES. js_includes t d \<longrightarrow> length d \<le> length c"
    if "notifiedBody r = Some c" for c
    using find_longest[OF sorted, of "js_includes t" c] that nb set by simp
  have found: "c \<in> set CERT_BODIES \<and> js_includes t c" if "notifiedBody r = Some c" for c
    using that nb set find_SomeD[of "js_includes t" sortedBodies c] by simp
  have some: "\<exists>c. notifiedBody r = Some c" if "b \<in> set CERT_BODIES" "js_includes t b" for b
    using that nb set by (cases "find (js_includes t) sortedBodies") (auto simp: find_None_iff)
  show ?thesis
  proof (intro conjI ballI impI)
    fix a b assume "a \<in> set CERT_BODIES" "b \<in> set CERT_BODIES"
      "js_includes t a \<and> js_includes t b \<and> length a < length b"
    with longest[of a] show "notifiedBody r \<noteq> Some a" by (fastforce simp: not_less[symmetric])
  next
    assume "\<exists>b \<in> set CERT_BODIES. js_includes t b"
    then obtain c where "notifiedBody r = Some c" using some by blast
    with found[OF this] longest[OF this]
    show "\<exists>c \<in> set CERT_BODIES. notifiedBody r = Some c \<and> js_includes t c \<and>
               (\<forall>d \<in> set CERT_BODIES. js_includes t d \<longrightarrow> length d \<le> length c)" by blast
  next
    assume "\<forall>b \<in> set CERT_BODIES. \<not> js_includes t b"
    with nb set show "notifiedBody r = None" by (simp add: find_None_iff)
  qed
qed

section \<open>Protection types\<close>

lemma parse_protectionTypes_marking:
  assumes "parse_protectionTypes t r = Inr r'" and "parse_protectionTypes u q = Inr q'"
    and "marking r = marking q" and "protectionTypes r = protectionTypes q"
  shows "protectionTypes r' = protectionTypes q'"
  using assms by (auto simp: parse_protectionTypes_def Let_def split: option.splits sum.splits)

lemma parse_protectionTypes_at:
  assumes "parse t = Inr r"
  shows "\<exists>r0 r1. parse_protectionTypes t r0 = Inr r1 \<and> protectionTypes r0 = [] \<and>
           protectionTypes r1 = protectionTypes r \<and> marking r0 = marking r"
proof -
  have "\<exists>r0 r1. (sections t ! 2) r0 = Inr r1 \<and> protectionTypes r0 = protectionTypes (empty_result t)
      \<and> protectionTypes r1 = protectionTypes r \<and> marking r0 = marking r"
    by (rule parse_at[OF assms]) (simp_all add: sections_def keeps_intros)
  then show ?thesis by (simp add: sections_def empty_result_def)
qed

lemma rx_protMatch_empty: "js_match rx_protMatch [] = None"
  by (simp add: js_match_def exec_at_def rx_protMatch_def liti_def run.simps)

text \<open>
  Claim C2. \<open>protectionTypes\<close> is computed from the selected \<open>marking\<close> alone: two
  texts whose parses select the same \<open>marking\<close> have the same \<open>protectionTypes\<close>,
  and when \<open>marking\<close> is absent \<open>protectionTypes\<close> is empty.
\<close>

theorem protection_types_from_marking:
  "(parse t = Inr r \<and> parse u = Inr q \<and> marking r = marking q \<longrightarrow> protectionTypes r = protectionTypes q)
   \<and> (parse t = Inr r \<and> marking r = None \<longrightarrow> protectionTypes r = [])"
proof (intro conjI impI)
  assume a: "parse t = Inr r \<and> parse u = Inr q \<and> marking r = marking q"
  from parse_protectionTypes_at[of t r] a obtain r0 r1 where
    r: "parse_protectionTypes t r0 = Inr r1" "protectionTypes r0 = []"
       "protectionTypes r1 = protectionTypes r" "marking r0 = marking r" by blast
  from parse_protectionTypes_at[of u q] a obtain q0 q1 where
    q: "parse_protectionTypes u q0 = Inr q1" "protectionTypes q0 = []"
       "protectionTypes q1 = protectionTypes q" "marking q0 = marking q" by blast
  from parse_protectionTypes_marking[OF r(1) q(1)] r q a
  show "protectionTypes r = protectionTypes q" by simp
next
  assume a: "parse t = Inr r \<and> marking r = None"
  from parse_protectionTypes_at[of t r] a obtain r0 r1 where
    r: "parse_protectionTypes t r0 = Inr r1" "protectionTypes r0 = []"
       "protectionTypes r1 = protectionTypes r" "marking r0 = marking r" by blast
  with a show "protectionTypes r = []"
    by (auto simp: parse_protectionTypes_def Let_def rx_protMatch_empty)
qed

section \<open>Ex marking\<close>

text \<open>The candidates: every match of every marking pattern, whitespace-normalised, in
  the order the two loops of the section visit them.\<close>

definition marking_candidates :: "jstring \<Rightarrow> jstring list" where
  "marking_candidates t =
     map (\<lambda>m. collapse_ws (trim m)) (concat (map (\<lambda>pat. js_match_all pat t) markingPatterns))"

lemma collect_matches_inv:
  assumes "seen = set found" and "distinct found"
  shows "snd (collect_matches ms (found, seen)) = set (fst (collect_matches ms (found, seen)))
       \<and> distinct (fst (collect_matches ms (found, seen)))
       \<and> set (fst (collect_matches ms (found, seen))) = set found \<union> (\<lambda>m. collapse_ws (trim m)) ` set ms"
  using assms
proof (induction ms arbitrary: found seen)
  case Nil
  then show ?case by simp
next
  case (Cons m ms)
  let ?c = "collapse_ws (trim m)"
  show ?case
  proof (cases "?c \<in> seen")
    case True
    with Cons.IH[OF Cons.prems] Cons.prems show ?thesis by (auto simp: Let_def)
  next
    case False
    with Cons.prems have "insert ?c seen = set (found @ [?c])" "distinct (found @ [?c])" by auto
    from Cons.IH[OF this] False show ?thesis by (auto simp: Let_def)
  qed
qed

lemma collect_patterns_inv:
  assumes "snd acc = set (fst acc)" and "distinct (fst acc)"
  shows "snd (collect_patterns pats t acc) = set (fst (collect_patterns pats t acc))
       \<and> distinct (fst (collect_patterns pats t acc))
       \<and> set (fst (collect_patterns pats t acc)) =
           set (fst acc) \<union> (\<lambda>m. collapse_ws (trim m)) ` (\<Union>pat \<in> set pats. set (js_match_all pat t))"
  using assms
proof (induction pats arbitrary: acc)
  case Nil
  then show ?case by simp
next
  case (Cons pat pats)
  obtain found seen where acc: "acc = (found, seen)" by (cases acc)
  with Cons.prems have "seen = set found" "distinct found" by simp_all
  note inv = collect_matches_inv[OF this, of "js_match_all pat t"]
  from Cons.IH[of "collect_matches (js_match_all pat t) acc"] inv acc
  show ?case by auto
qed

lemma allMarkings:
  "distinct (fst (collect_patterns markingPatterns t ([], {})))"
  "set (fst (collect_patterns markingPatterns t ([], {}))) = set (marking_candidates t)"
  using collect_patterns_inv[of "([], {})" markingPatterns t]
  by (auto simp: marking_candidates_def)

lemma parse_marking_values:
  assumes "marking r0 = None" and "markings r0 = []"
  shows "markings (parse_marking t r0) = sort_longest_first (fst (collect_patterns markingPatterns t ([], {})))"
    and "marking (parse_marking t r0) = (case markings (parse_marking t r0) of [] \<Rightarrow> None | m # ms \<Rightarrow> Some m)"
  using assms
  by (auto simp: parse_marking_def Let_def sort_longest_first_def split: list.splits)

lemma parse_marking_field:
  assumes "parse t = Inr r"
  shows "markings r = sort_longest_first (fst (collect_patterns markingPatterns t ([], {})))"
    and "marking r = (case markings r of [] \<Rightarrow> None | m # ms \<Rightarrow> Some m)"
proof -
  let ?f = "\<lambda>r. (marking r, markings r)"
  have "\<exists>r0 r1. (sections t ! 1) r0 = Inr r1 \<and> ?f r0 = ?f (empty_result t) \<and> ?f r1 = ?f r \<and> () = ()"
    by (rule parse_at[OF assms, where g = "\<lambda>r. ()"]) (simp_all add: sections_def keeps_intros keeps_unit)
  then obtain r0 where r0: "marking (parse_marking t r0) = marking r" "markings (parse_marking t r0) = markings r"
    "marking r0 = None" "markings r0 = []"
    by (auto simp: sections_def no_throw_def empty_result_def)
  from parse_marking_values[OF r0(3,4), of t] r0(1,2)
  show "markings r = sort_longest_first (fst (collect_patterns markingPatterns t ([], {})))"
    and "marking r = (case markings r of [] \<Rightarrow> None | m # ms \<Rightarrow> Some m)" by simp_all
qed

text \<open>
  Claim C1, as amended. \<open>markings\<close> is the set of whitespace-normalised candidates,
  without duplicates, sorted by descending length; \<open>marking\<close> is its first element (absent
  when there is no candidate), so no candidate is longer than \<open>marking\<close>. In particular,
  when \<^verbatim>\<open>Ex db IIC T4 Gb\<close> and \<^verbatim>\<open>Ex d IIC\<close> are among the candidates and every other
  candidate is shorter than \<^verbatim>\<open>Ex db IIC T4 Gb\<close>, then \<open>marking\<close> is
  \<^verbatim>\<open>Ex db IIC T4 Gb\<close> and \<open>markings\<close> holds both, the longer first.
\<close>

theorem marking_longest:
  assumes "parse t = Inr r"
  shows "set (markings r) = set (marking_candidates t)
       \<and> distinct (markings r)
       \<and> sorted_wrt (\<lambda>a b. length b \<le> length a) (markings r)
       \<and> marking r = (case markings r of [] \<Rightarrow> None | m # ms \<Rightarrow> Some m)
       \<and> (\<forall>m. marking r = Some m \<longrightarrow> (\<forall>c \<in> set (marking_candidates t). length c \<le> length m))
       \<and> (str ''Ex db IIC T4 Gb'' \<in> set (marking_candidates t) \<and>
          str ''Ex d IIC'' \<in> set (marking_candidates t) \<and>
          (\<forall>c \<in> set (marking_candidates t). c \<noteq> str ''Ex db IIC T4 Gb'' \<longrightarrow> length c < length (str ''Ex db IIC T4 Gb''))
          \<longrightarrow> marking r = Some (str ''Ex db IIC T4 Gb'') \<and>
              (\<exists>ms. markings r = str ''Ex db IIC T4 Gb'' # ms \<and> str ''Ex d IIC'' \<in> set ms))"
proof -
  note f = parse_marking_field[OF assms]
  have set: "set (markings r) = set (marking_candidates t)" and dist: "distinct (markings r)"
    and sorted: "sorted_wrt (\<lambda>a b. length b \<le> length a) (markings r)"
    by (simp_all add: f(1) allMarkings sorted_longest_first)
  have longest: "\<forall>c \<in> set (marking_candidates t). length c \<le> length m" if "marking r = Some m" for m
  proof -
    from that f(2) obtain ms where ms: "markings r = m # ms" by (cases "markings r") auto
    with sorted have "\<forall>c \<in> set ms. length c \<le> length m" by simp
    with ms set show ?thesis by auto
  qed
  have particular: "marking r = Some (str ''Ex db IIC T4 Gb'') \<and>
              (\<exists>ms. markings r = str ''Ex db IIC T4 Gb'' # ms \<and> str ''Ex d IIC'' \<in> set ms)"
    if full: "str ''Ex db IIC T4 Gb'' \<in> set (marking_candidates t)"
      and part: "str ''Ex d IIC'' \<in> set (marking_candidates t)"
      and shorter: "\<forall>c \<in> set (marking_candidates t). c \<noteq> str ''Ex db IIC T4 Gb'' \<longrightarrow>
                      length c < length (str ''Ex db IIC T4 Gb'')"
  proof -
    from full set obtain m ms where ms: "markings r = m # ms" by (cases "markings r") auto
    with f(2) have mk: "marking r = Some m" by simp
    from longest[OF mk] full have "length (str ''Ex db IIC T4 Gb'') \<le> length m" by simp
    moreover from ms set have "m \<in> set (marking_candidates t)" by auto
    ultimately have m: "m = str ''Ex db IIC T4 Gb''" using shorter by fastforce
    have "str ''Ex d IIC'' \<noteq> str ''Ex db IIC T4 Gb''" by (simp add: str_def)
    with part set ms m have "str ''Ex d IIC'' \<in> set ms" by auto
    with mk ms m show ?thesis by simp
  qed
  from set dist sorted f(2) longest particular show ?thesis by blast
qed

section \<open>Evaluating a pattern on a given string\<close>

text \<open>The equations below run a pattern without unfolding it first: a named pattern, a
  literal or a quantifier is opened only where the matcher reaches it.\<close>

lemma run_cong: "r = r' \<Longrightarrow> run r s = run r' s"
  by simp

lemma run_Chr_St:
  "run (Chr P) (St p [] cp) = []"
  "run (Chr P) (St p (c # cs) cp) = (if P c then [St (Some c) cs cp] else [])"
  by (simp_all add: run.simps(1))

lemma run_Epsilon_fun: "run Epsilon = (\<lambda>s. [s])"
  by (rule ext) (simp add: run.simps(2))

lemma concat_singletons: "concat (map (\<lambda>s. [s]) xs) = xs"
  by (induction xs) simp_all

lemma run_rx_seq:
  "run (rx_seq []) s = [s]"
  "run (rx_seq (r # rs)) s = concat (map (run (rx_seq rs)) (run r s))"
proof -
  show "run (rx_seq []) s = [s]" by (simp add: run.simps(2))
  show "run (rx_seq (r # rs)) s = concat (map (run (rx_seq rs)) (run r s))"
    by (cases rs) (simp_all add: run.simps(3) run_Epsilon_fun concat_singletons)
qed

lemma run_rx_alt:
  "run (rx_alt []) s = []"
  "run (rx_alt (r # rs)) s = run r s @ run (rx_alt rs) s"
proof -
  show nil: "run (rx_alt []) s = []" by (simp add: run.simps(2,8))
  show "run (rx_alt (r # rs)) s = run r s @ run (rx_alt rs) s"
    by (cases rs) (simp_all add: run.simps(2,4,8))
qed

lemma run_lit:
  "run (lit []) s = [s]"
  "run (lit (c # cs)) s = concat (map (run (lit cs)) (run (Chr (\<lambda>x. x = of_char c)) s))"
  unfolding lit_def by (simp_all only: list.map run_rx_seq)

lemma run_liti:
  "run (liti []) s = [s]"
  "run (liti (c # cs)) s = concat (map (run (liti cs)) (run (Chr (ci (\<lambda>x. x = of_char c))) s))"
  unfolding liti_def by (simp_all only: list.map run_rx_seq)

lemma run_rx_times:
  "run (rx_times n a k) s = (if n = 0 then run k s else concat (map (run (rx_times (n - 1) a k)) (run a s)))"
proof (cases "n = 0")
  case True
  then show ?thesis by (subst rx_times.simps) simp
next
  case False
  then show ?thesis by (subst rx_times.simps) (simp add: run.simps(3))
qed

lemmas run_derived =
  run_cong[OF rx_star_def] run_cong[OF rx_lazy_star_def] run_cong[OF rx_plus_def] run_cong[OF rx_opt_def]
  run_cong[OF rx_rep_def] run_cong[OF rx_rep_lazy_def] run_cong[OF rx_exactly_def] run_cong[OF rx_at_least_def]
  run_cong[OF ws_def] run_cong[OF digit_def] run_cong[OF colon_ws_def] run_cong[OF newline_def]
  run_cong[OF not_newline_def] run_cong[OF degree_def]

lemmas run_pats =
  run_cong[OF rx_iecex_def] run_cong[OF rx_atex_def] run_cong[OF rx_ukca_def] run_cong[OF rx_atexAlso_def]
  run_cong[OF ex_types_def] run_cong[OF ex_bracket_def] run_cong[OF ex_ABC_def] run_cong[OF ex_H2_def]
  run_cong[OF ex_temps_def] run_cong[OF ex_epl_def] run_cong[OF rx_protMatch_def] run_cong[OF rx_abc_end_def]
  run_cong[OF rx_abcrs_end_def] run_cong[OF rx_gasFromMarking_def] run_cong[OF rx_gasFromText_def]
  run_cong[OF rx_groupPrefix_def] run_cong[OF rx_temp_def] run_cong[OF rx_epl_def] run_cong[OF rx_zone_def]
  run_cong[OF rx_ip_def] run_cong[OF rx_amb_def] run_cong[OF value_next_line_def] run_cong[OF value_same_line_def]
  run_cong[OF rx_mfrDeny_def] run_cong[OF rx_trailing_def] run_cong[OF rx_eqDeny_def] run_cong[OF date_iso_def]
  run_cong[OF date_dmy_def] run_cong[OF rx_spec_def] run_cong[OF rx_std_def] run_cong[OF rx_catII_def]
  run_cong[OF rx_catLabel_def] run_cong[OF rx_grp_def] run_cong[OF rx_grpAlt_def]

lemmas run_eval = run_Chr_St run.simps(2-11) run_rx_seq run_rx_alt run_lit run_liti run_rx_times
  run_derived run_pats prio_def word_before_def word_after_def exec_at_def js_match_def
  js_test_def js_replace_def js_match_all_def match_all_from.simps

lemmas class_eval = is_space_def is_digit_def is_upper_def is_lower_def is_word_def is_dot_def
  in_range_def one_of_def ci_def ascii_upper_def ascii_lower_def str_def

lemmas string_eval = toLowerCase_def trim_def remove_ws_def split_ws_def js_includes_def dedupe_def
  sort_longest_first_def or_else_def sublist_code

lemmas table_eval = PROTECTION_TYPES_def GAS_GROUP_INFO_def TEMP_CLASS_INFO_def VALID_PROT_CODES_def
  eplZoneMap_def

lemmas section_eval = cert_iecex_def cert_atex_def cert_ukca_def cert_dual_def parse_certNumber_def
  parse_marking_def valid_code_def decompose_code_def parse_protectionTypes_def parse_gasGroup_def
  parse_tempClass_def parse_epl_def parse_zone_def parse_ipRating_def parse_ambientTemp_def
  parse_manufacturer_def parse_equipment_def parse_notifiedBody_def parse_issueDate_def
  parse_expiryDate_def parse_specialConditions_def parse_standard_def parse_category_def
  parse_group_def no_throw_def Let_def

end
